theory Spec2Isabelle
  imports Main "HOL-Library.Char_ord" "HOL-Library.List_Lexorder"
begin

section \<open>Data model\<close>

text \<open>
  The recipe application stores recipes, tags and ingredients in relational tables
  (\<^verbatim>\<open>core.models\<close>) and reaches them through the object-relational mapper. The model
  below keeps the tables as lists of rows and writes every mapper call of
  \<^verbatim>\<open>recipe/serializers.py\<close> and \<^verbatim>\<open>recipe/views.py\<close> as a function on them. Strings
  are lists of characters with code points below 256; prices are counted in hundredths.

  An exception of the source is a value of \<open>error\<close>. A function that changes the
  database returns the database it leaves behind together with its outcome, so a
  raise in the middle of a request keeps the writes made before it (the mapper
  commits each statement on its own).
\<close>

datatype error =
  TypeError | ValueError | MultipleObjectsReturned | IntegrityError | Http404 | ValidationError

text \<open>
  The status a raised exception is answered with: the framework's exception handler
  turns \<open>Http404\<close> into 404 and the \<open>ValidationError\<close> of a serializer into 400, and
  hands every exception that is not an API exception on to the server, which answers 500.
\<close>

fun status_code :: "error \<Rightarrow> nat" where
  "status_code Http404 = 404"
| "status_code ValidationError = 400"
| "status_code TypeError = 500"
| "status_code ValueError = 500"
| "status_code MultipleObjectsReturned = 500"
| "status_code IntegrityError = 500"

text \<open>
  Modelled from the spec: the tables of \<^verbatim>\<open>core.models\<close>, which is not among the
  sources. A tag or an ingredient has an id, an owning user and a name.
\<close>

record attr =
  attr_id :: int
  attr_user :: int
  attr_name :: string

text \<open>
  Modelled from the spec: the recipe table of \<^verbatim>\<open>core.models\<close>, with the columns the
  data model of the specification and the serializers' field lists name. The image,
  which no property here is about, is left out.
\<close>

record recipe =
  recipe_id :: int
  recipe_user :: int
  title :: string
  time_minutes :: int
  price :: int
  link :: string
  description :: string

text \<open>
  An attribute table with its many-to-many table: \<open>links\<close> holds the pairs
  (recipe id, attribute id), \<open>next_id\<close> is the table's id sequence.
\<close>

record attr_store =
  attr_rows :: "attr list"
  links :: "(int \<times> int) list"
  next_id :: int

record db =
  recipes :: "recipe list"
  recipe_seq :: int
  tags :: attr_store
  ingredients :: attr_store

text \<open>
  An entry of a \<^verbatim>\<open>tags\<close> or \<^verbatim>\<open>ingredients\<close> list, in a request body or in validated
  data. The nested serializers declare the fields \<^verbatim>\<open>id\<close> (read only) and \<^verbatim>\<open>name\<close>, so
  of a dictionary only the key \<^verbatim>\<open>name\<close> counts: \<open>Dict (Some n)\<close> is \<^verbatim>\<open>{'name': n}\<close>,
  \<open>Dict None\<close> is a dictionary without that key. \<open>NotDict\<close> is any value that is not a
  dictionary. The two loops of the serializer take any list of entries; which lists the
  views hand them is settled by the validation below.
\<close>

datatype entry = NotDict | Dict "string option"

text \<open>A scalar field value of a request or of validated data.\<close>

datatype pyval = VStr string | VInt int

record validated_data =
  v_tags :: "entry list option"
  v_ingredients :: "entry list option"
  v_fields :: "(string \<times> pyval) list"

section \<open>The object-relational mapper\<close>

text \<open>
  The rows a lookup \<^verbatim>\<open>get(user=u, **kwargs)\<close> matches: the key \<^verbatim>\<open>name\<close>, when the
  keyword arguments hold it, narrows the rows of the user.
\<close>

definition lookup_rows :: "int \<Rightarrow> string option \<Rightarrow> attr list \<Rightarrow> attr list" where
  "lookup_rows u kw rs =
     filter (\<lambda>a. attr_user a = u \<and> (case kw of None \<Rightarrow> True | Some n \<Rightarrow> attr_name a = n)) rs"

text \<open>
  \<^verbatim>\<open>objects.get_or_create(user=u, **kwargs)\<close>: the one matching row; a new row, with the
  next id of the sequence (a name that is not given is the empty string), when no row
  matches; \<open>MultipleObjectsReturned\<close> when several do.
\<close>

definition objects_get_or_create ::
  "int \<Rightarrow> string option \<Rightarrow> attr_store \<Rightarrow> attr_store \<times> (error + attr)" where
  "objects_get_or_create u kw st =
     (case lookup_rows u kw (attr_rows st) of
        [] \<Rightarrow>
          (let obj = \<lparr>attr_id = next_id st, attr_user = u,
                      attr_name = (case kw of None \<Rightarrow> [] | Some n \<Rightarrow> n)\<rparr>
           in (st\<lparr>attr_rows := attr_rows st @ [obj], next_id := next_id st + 1\<rparr>, Inr obj))
      | [obj] \<Rightarrow> (st, Inr obj)
      | _ \<Rightarrow> (st, Inl MultipleObjectsReturned))"

text \<open>\<^verbatim>\<open>recipe.tags.add(obj)\<close>: a pair that is already in the table is not added again.\<close>

definition m2m_add :: "int \<Rightarrow> attr \<Rightarrow> attr_store \<Rightarrow> attr_store" where
  "m2m_add rid obj st =
     (if (rid, attr_id obj) \<in> set (links st) then st
      else st\<lparr>links := links st @ [(rid, attr_id obj)]\<rparr>)"

text \<open>\<^verbatim>\<open>instance.tags.clear()\<close>: every pair of the recipe is removed.\<close>

definition m2m_clear :: "int \<Rightarrow> attr_store \<Rightarrow> attr_store" where
  "m2m_clear rid st = st\<lparr>links := filter (\<lambda>l. fst l \<noteq> rid) (links st)\<rparr>"

text \<open>
  \<^verbatim>\<open>setattr(instance, attr, value)\<close> on a recipe. Only a column is written back by
  \<^verbatim>\<open>save()\<close>; validated data holds strings for the text columns and integers for
  the others. The primary key is read only in every serializer and is no key of
  validated data, so the columns that can be assigned are the other six.
\<close>

fun setattr :: "recipe \<Rightarrow> string \<Rightarrow> pyval \<Rightarrow> recipe" where
  "setattr r a (VStr s) =
     (if a = ''title'' then r\<lparr>title := s\<rparr>
      else if a = ''link'' then r\<lparr>link := s\<rparr>
      else if a = ''description'' then r\<lparr>description := s\<rparr>
      else r)"
| "setattr r a (VInt i) =
     (if a = ''time_minutes'' then r\<lparr>time_minutes := i\<rparr>
      else if a = ''price'' then r\<lparr>price := i\<rparr>
      else if a = ''user'' then r\<lparr>recipe_user := i\<rparr>
      else r)"

text \<open>\<^verbatim>\<open>for attr, value in validated_data.items(): setattr(instance, attr, value)\<close>\<close>

fun setattrs :: "recipe \<Rightarrow> (string \<times> pyval) list \<Rightarrow> recipe" where
  "setattrs r [] = r"
| "setattrs r ((a, v) # kvs) = setattrs (setattr r a v) kvs"

text \<open>
  \<^verbatim>\<open>instance.save()\<close>: the row with the instance's id is overwritten; without such a
  row the instance is inserted.
\<close>

definition save :: "recipe \<Rightarrow> db \<Rightarrow> db" where
  "save inst d =
     (if recipe_id inst \<in> recipe_id ` set (recipes d)
      then d\<lparr>recipes := map (\<lambda>r. if recipe_id r = recipe_id inst then inst else r) (recipes d)\<rparr>
      else d\<lparr>recipes := recipes d @ [inst]\<rparr>)"

text \<open>
  \<^verbatim>\<open>Recipe.objects.create(**validated_data)\<close>: a new row with the next id of the
  sequence. The owner column takes no null, so data without a user is refused.
\<close>

definition Recipe_objects_create :: "(string \<times> pyval) list \<Rightarrow> db \<Rightarrow> db \<times> (error + recipe)" where
  "Recipe_objects_create kvs d =
     (case map_of kvs ''user'' of
        Some (VInt u) \<Rightarrow>
          (let r = setattrs \<lparr>recipe_id = recipe_seq d, recipe_user = u, title = [],
                     time_minutes = 0, price = 0, link = [], description = []\<rparr> kvs
           in (d\<lparr>recipes := recipes d @ [r], recipe_seq := recipe_seq d + 1\<rparr>, Inr r))
      | _ \<Rightarrow> (d, Inl IntegrityError))"

text \<open>
  \<^verbatim>\<open>isinstance(e, dict)\<close>, \<^verbatim>\<open>'name' in e\<close> and the keyword arguments \<^verbatim>\<open>**e\<close> of a
  dictionary.
\<close>

fun isinstance_dict :: "entry \<Rightarrow> bool" where
  "isinstance_dict NotDict = False"
| "isinstance_dict (Dict kw) = True"

fun name_in :: "entry \<Rightarrow> bool" where
  "name_in NotDict = False"
| "name_in (Dict kw) = (kw \<noteq> None)"

fun kwargs :: "entry \<Rightarrow> string option" where
  "kwargs NotDict = None"
| "kwargs (Dict kw) = kw"

section \<open>The recipe serializer\<close>

text \<open>
  \<^verbatim>\<open>RecipeSerializer._get_or_create_tags(self, tags, recipe)\<close>; the authenticated user of
  the request context is the first argument. An entry that is not a dictionary with the
  key \<^verbatim>\<open>name\<close> is passed over.
\<close>

fun get_or_create_tags :: "int \<Rightarrow> entry list \<Rightarrow> recipe \<Rightarrow> db \<Rightarrow> db \<times> error option" where
  "get_or_create_tags auth_user [] rcp d = (d, None)"
| "get_or_create_tags auth_user (tag # rest) rcp d =
     (if isinstance_dict tag \<and> name_in tag then
        (case objects_get_or_create auth_user (kwargs tag) (tags d) of
           (st, Inl e) \<Rightarrow> (d\<lparr>tags := st\<rparr>, Some e)
         | (st, Inr tag_obj) \<Rightarrow>
             get_or_create_tags auth_user rest rcp
               (d\<lparr>tags := m2m_add (recipe_id rcp) tag_obj st\<rparr>))
      else get_or_create_tags auth_user rest rcp d)"

text \<open>
  \<^verbatim>\<open>RecipeSerializer._get_or_create_ingredients(self, ingredients, recipe)\<close>: every entry
  is unpacked as keyword arguments, which raises \<open>TypeError\<close> for a value that is not
  a dictionary.
\<close>

fun get_or_create_ingredients :: "int \<Rightarrow> entry list \<Rightarrow> recipe \<Rightarrow> db \<Rightarrow> db \<times> error option" where
  "get_or_create_ingredients auth_user [] rcp d = (d, None)"
| "get_or_create_ingredients auth_user (ingredient # rest) rcp d =
     (if \<not> isinstance_dict ingredient then (d, Some TypeError)
      else
        (case objects_get_or_create auth_user (kwargs ingredient) (ingredients d) of
           (st, Inl e) \<Rightarrow> (d\<lparr>ingredients := st\<rparr>, Some e)
         | (st, Inr ingredient_obj) \<Rightarrow>
             get_or_create_ingredients auth_user rest rcp
               (d\<lparr>ingredients := m2m_add (recipe_id rcp) ingredient_obj st\<rparr>)))"

text \<open>\<^verbatim>\<open>validated_data.pop(key, default)\<close> on the two list fields.\<close>

definition pop_list :: "entry list option \<Rightarrow> entry list \<Rightarrow> entry list" where
  "pop_list field dflt = (case field of None \<Rightarrow> dflt | Some es \<Rightarrow> es)"

text \<open>
  \<^verbatim>\<open>RecipeSerializer.create(self, validated_data)\<close>. The outcome is the created recipe,
  or the exception that ended the call.
\<close>

definition RecipeSerializer_create ::
  "int \<Rightarrow> validated_data \<Rightarrow> db \<Rightarrow> db \<times> (error + recipe)" where
  "RecipeSerializer_create auth_user vd d =
     (let tgs = pop_list (v_tags vd) [];
          ings = pop_list (v_ingredients vd) []
      in case Recipe_objects_create (v_fields vd) d of
           (d1, Inl e) \<Rightarrow> (d1, Inl e)
         | (d1, Inr rcp) \<Rightarrow>
             (case get_or_create_tags auth_user tgs rcp d1 of
                (d2, Some e) \<Rightarrow> (d2, Inl e)
              | (d2, None) \<Rightarrow>
                  (case get_or_create_ingredients auth_user ings rcp d2 of
                     (d3, Some e) \<Rightarrow> (d3, Inl e)
                   | (d3, None) \<Rightarrow> (d3, Inr rcp))))"

text \<open>
  \<^verbatim>\<open>RecipeSerializer.update(self, instance, validated_data)\<close>: the ingredients first,
  then the tags, then the scalar fields and the save.
\<close>

definition RecipeSerializer_update ::
  "int \<Rightarrow> recipe \<Rightarrow> validated_data \<Rightarrow> db \<Rightarrow> db \<times> (error + recipe)" where
  "RecipeSerializer_update auth_user inst vd d =
     (case (case v_ingredients vd of
              None \<Rightarrow> (d, None)
            | Some ings \<Rightarrow>
                get_or_create_ingredients auth_user ings inst
                  (d\<lparr>ingredients := m2m_clear (recipe_id inst) (ingredients d)\<rparr>)) of
        (d1, Some e) \<Rightarrow> (d1, Inl e)
      | (d1, None) \<Rightarrow>
          (case (case v_tags vd of
                   None \<Rightarrow> (d1, None)
                 | Some tgs \<Rightarrow>
                     get_or_create_tags auth_user tgs inst
                       (d1\<lparr>tags := m2m_clear (recipe_id inst) (tags d1)\<rparr>)) of
             (d2, Some e) \<Rightarrow> (d2, Inl e)
           | (d2, None) \<Rightarrow>
               (let inst' = setattrs inst (v_fields vd)
                in (save inst' d2, Inr inst'))))"

section \<open>Request data and validation\<close>

text \<open>
  The body of a create or update request: the two list fields and the scalar fields by
  name. A body may name fields the serializer does not declare, such as \<^verbatim>\<open>user\<close>.
  The checks of the scalar fields of a recipe (lengths, number formats, the fields a
  full update requires) are left out: a body is one that passes them. So is the bound on
  the length of a name, which is set in \<^verbatim>\<open>core.models\<close>.
\<close>

record request_data =
  d_tags :: "entry list option"
  d_ingredients :: "entry list option"
  d_fields :: "(string \<times> pyval) list"

text \<open>\<^verbatim>\<open>RecipeSerializer.Meta\<close> and \<^verbatim>\<open>RecipeDetailSerializer.Meta\<close>.\<close>

definition RecipeSerializer_fields :: "string list" where
  "RecipeSerializer_fields =
     [''id'', ''title'', ''time_minutes'', ''price'', ''link'', ''tags'', ''ingredients'']"

definition RecipeDetailSerializer_fields :: "string list" where
  "RecipeDetailSerializer_fields = RecipeSerializer_fields @ [''description'']"

definition read_only_fields :: "string list" where
  "read_only_fields = [''id'']"

text \<open>
  \<^verbatim>\<open>str.strip()\<close>, which the character field of a name applies to its value: the
  white space of \<^verbatim>\<open>str.isspace\<close> is dropped at both ends.
\<close>

definition isspace :: "char \<Rightarrow> bool" where
  "isspace c = ((of_char c :: nat) \<in> {9, 10, 11, 12, 13, 28, 29, 30, 31, 32, 133, 160})"

definition str_strip :: "string \<Rightarrow> string" where
  "str_strip s = rev (dropWhile isspace (rev (dropWhile isspace s)))"

text \<open>
  \<^verbatim>\<open>TagSerializer\<close> and \<^verbatim>\<open>IngredientSerializer\<close> on one value (\<^verbatim>\<open>fields = ['id', 'name']\<close>,
  \<^verbatim>\<open>id\<close> read only). A value that is not a dictionary is refused. The name is
  required, except in a partial update, where a field that is absent is passed over;
  a name that is blank once trimmed, or holds the null character, is refused; the
  validated name is the trimmed one.
\<close>

fun run_validation :: "bool \<Rightarrow> entry \<Rightarrow> error + entry" where
  "run_validation partial NotDict = Inl ValidationError"
| "run_validation partial (Dict None) =
     (if partial then Inr (Dict None) else Inl ValidationError)"
| "run_validation partial (Dict (Some n)) =
     (if str_strip n = [] \<or> CHR 0x00 \<in> set n then Inl ValidationError
      else Inr (Dict (Some (str_strip n))))"

text \<open>
  The nested serializers with \<^verbatim>\<open>many=True\<close>: every entry of the list is validated, and
  one entry that is refused refuses the list.
\<close>

fun run_child_validation :: "bool \<Rightarrow> entry list \<Rightarrow> error + entry list" where
  "run_child_validation partial [] = Inr []"
| "run_child_validation partial (e # es) =
     (case run_validation partial e of
        Inl x \<Rightarrow> Inl x
      | Inr v \<Rightarrow>
          (case run_child_validation partial es of
             Inl x \<Rightarrow> Inl x
           | Inr vs \<Rightarrow> Inr (v # vs)))"

text \<open>
  A list field of the recipe serializers (\<^verbatim>\<open>required=False\<close>): absent from the
  validated data when the body does not hold it.
\<close>

definition list_field ::
  "bool \<Rightarrow> string list \<Rightarrow> string \<Rightarrow> entry list option \<Rightarrow> error + entry list option" where
  "list_field partial flds f v =
     (if f \<notin> set flds then Inr None
      else (case v of
              None \<Rightarrow> Inr None
            | Some es \<Rightarrow>
                (case run_child_validation partial es of
                   Inl x \<Rightarrow> Inl x
                 | Inr vs \<Rightarrow> Inr (Some vs))))"

text \<open>
  The validated data of a recipe serializer, or the \<open>ValidationError\<close> of
  \<^verbatim>\<open>is_valid(raise_exception=True)\<close>: for each declared field that is not read only,
  the validated value of what the body gives it. A key of the body that is no declared
  field is dropped.
\<close>

definition to_internal_value ::
  "bool \<Rightarrow> string list \<Rightarrow> request_data \<Rightarrow> error + validated_data" where
  "to_internal_value partial flds data =
     (case list_field partial flds ''tags'' (d_tags data) of
        Inl x \<Rightarrow> Inl x
      | Inr tgs \<Rightarrow>
          (case list_field partial flds ''ingredients'' (d_ingredients data) of
             Inl x \<Rightarrow> Inl x
           | Inr ings \<Rightarrow>
               Inr \<lparr>v_tags = tgs,
                    v_ingredients = ings,
                    v_fields =
                      List.map_filter (\<lambda>f. map_option (Pair f) (map_of (d_fields data) f))
                        (filter (\<lambda>f. f \<notin> set read_only_fields \<and> f \<noteq> ''tags''
                                      \<and> f \<noteq> ''ingredients'') flds)\<rparr>))"

section \<open>Query parameters\<close>

text \<open>
  Python's \<^verbatim>\<open>int(s)\<close> on a string: white space around the number is dropped, a sign
  may come first, and the digits may be grouped by single underscores. \<open>None\<close> stands
  for the \<open>ValueError\<close> it raises. The integers are unbounded; the limit newer
  interpreters put on the number of digits is left out.

  The white space \<^verbatim>\<open>int\<close> drops is the tab, the line feed, the vertical tab, the form
  feed, the carriage return and the space, and of the code points from 128 on the next
  line (133) and the no-break space (160). The separators 28 to 31, which
  \<^verbatim>\<open>str.isspace\<close> counts as white space, are kept by \<^verbatim>\<open>int\<close>, which then raises.
\<close>

definition is_space :: "char \<Rightarrow> bool" where
  "is_space c = ((of_char c :: nat) \<in> {9, 10, 11, 12, 13, 32, 133, 160})"

definition is_digit :: "char \<Rightarrow> bool" where
  "is_digit c = (48 \<le> (of_char c :: nat) \<and> (of_char c :: nat) \<le> 57)"

definition digit_val :: "char \<Rightarrow> int" where
  "digit_val c = int (of_char c) - 48"

fun digits :: "string \<Rightarrow> int \<Rightarrow> int option" where
  "digits [] acc = Some acc"
| "digits (c # cs) acc =
     (if is_digit c then digits cs (10 * acc + digit_val c)
      else if c = CHR ''_'' \<and> cs \<noteq> [] \<and> is_digit (hd cs) then digits cs acc
      else None)"

definition parse_digits :: "string \<Rightarrow> int option" where
  "parse_digits s = (if s \<noteq> [] \<and> is_digit (hd s) then digits s 0 else None)"

definition strip :: "string \<Rightarrow> string" where
  "strip s = rev (dropWhile is_space (rev (dropWhile is_space s)))"

definition int_of_str :: "string \<Rightarrow> int option" where
  "int_of_str s =
     (case strip s of
        [] \<Rightarrow> None
      | c # cs \<Rightarrow>
          if c = CHR ''-'' then map_option uminus (parse_digits cs)
          else if c = CHR ''+'' then parse_digits cs
          else parse_digits (c # cs))"

text \<open>\<^verbatim>\<open>qs.split(sep)\<close>: one piece more than there are separators.\<close>

fun split_on :: "char \<Rightarrow> string \<Rightarrow> string list" where
  "split_on sep [] = [[]]"
| "split_on sep (c # cs) =
     (if c = sep then [] # split_on sep cs
      else (case split_on sep cs of [] \<Rightarrow> [[c]] | t # ts \<Rightarrow> (c # t) # ts))"

text \<open>\<^verbatim>\<open>[int(str_id) for str_id in ...]\<close>: the first piece that is no integer raises.\<close>

fun int_each :: "string list \<Rightarrow> error + int list" where
  "int_each [] = Inr []"
| "int_each (str_id # others) =
     (case int_of_str str_id of
        None \<Rightarrow> Inl ValueError
      | Some i \<Rightarrow> (case int_each others of Inl e \<Rightarrow> Inl e | Inr ids \<Rightarrow> Inr (i # ids)))"

text \<open>\<^verbatim>\<open>RecipeViewSet._params_to_ints(self, qs)\<close>\<close>

definition params_to_ints :: "string \<Rightarrow> error + int list" where
  "params_to_ints qs = int_each (split_on CHR '','' qs)"

section \<open>The recipe views\<close>

text \<open>
  \<^verbatim>\<open>queryset.filter(tags__id__in=ids)\<close>: the join with the many-to-many table gives a
  recipe once for each of its pairs whose attribute id is among \<open>ids\<close>.
\<close>

definition filter_related_in :: "(int \<times> int) list \<Rightarrow> int list \<Rightarrow> recipe list \<Rightarrow> recipe list" where
  "filter_related_in lnks ids qs =
     concat (map (\<lambda>r. map (\<lambda>l. r) (filter (\<lambda>l. fst l = recipe_id r \<and> snd l \<in> set ids) lnks)) qs)"

text \<open>
  \<^verbatim>\<open>order_by('-id')\<close> and \<^verbatim>\<open>order_by('-name')\<close>: descending by the key. Names are
  compared character by character, by code point; the order among rows with equal keys
  is not fixed by the database, and nothing below depends on it.
\<close>

definition order_by_desc :: "('a \<Rightarrow> 'k::linorder) \<Rightarrow> 'a list \<Rightarrow> 'a list" where
  "order_by_desc k qs = rev (sort_key k qs)"

text \<open>
  \<^verbatim>\<open>RecipeViewSet.get_queryset(self)\<close>, for the authenticated user and the query
  parameters \<^verbatim>\<open>tags\<close> and \<^verbatim>\<open>ingredients\<close> (\<open>None\<close> when the request has none). An
  empty string is false in \<^verbatim>\<open>if tags:\<close>.
\<close>

definition RecipeViewSet_get_queryset ::
  "db \<Rightarrow> int \<Rightarrow> string option \<Rightarrow> string option \<Rightarrow> error + recipe list" where
  "RecipeViewSet_get_queryset d user tgs ings =
     (case (case tgs of
              None \<Rightarrow> Inr (recipes d)
            | Some s \<Rightarrow>
                if s = [] then Inr (recipes d)
                else (case params_to_ints s of
                        Inl e \<Rightarrow> Inl e
                      | Inr tag_ids \<Rightarrow> Inr (filter_related_in (links (tags d)) tag_ids (recipes d)))) of
        Inl e \<Rightarrow> Inl e
      | Inr queryset \<Rightarrow>
          (case (case ings of
                   None \<Rightarrow> Inr queryset
                 | Some s \<Rightarrow>
                     if s = [] then Inr queryset
                     else (case params_to_ints s of
                             Inl e \<Rightarrow> Inl e
                           | Inr ingredient_ids \<Rightarrow>
                               Inr (filter_related_in (links (ingredients d)) ingredient_ids queryset))) of
             Inl e \<Rightarrow> Inl e
           | Inr queryset' \<Rightarrow>
               Inr (remdups (order_by_desc recipe_id
                      (filter (\<lambda>r. recipe_user r = user) queryset')))))"

text \<open>
  \<^verbatim>\<open>get_object()\<close> of the generic views: the row of the queryset with the primary key
  of the URL, \<open>Http404\<close> when the queryset has none.
\<close>

definition get_object :: "('a \<Rightarrow> int) \<Rightarrow> (error + 'a list) \<Rightarrow> int \<Rightarrow> error + 'a" where
  "get_object pk_of queryset pk =
     (case queryset of
        Inl e \<Rightarrow> Inl e
      | Inr qs \<Rightarrow>
          (case filter (\<lambda>x. pk_of x = pk) qs of
             [] \<Rightarrow> Inl Http404
           | [x] \<Rightarrow> Inr x
           | _ \<Rightarrow> Inl MultipleObjectsReturned))"

text \<open>\<^verbatim>\<open>instance.delete()\<close> on a recipe: its row and its pairs in both tables.\<close>

definition delete_recipe :: "recipe \<Rightarrow> db \<Rightarrow> db" where
  "delete_recipe inst d =
     d\<lparr>recipes := filter (\<lambda>r. recipe_id r \<noteq> recipe_id inst) (recipes d),
       tags := m2m_clear (recipe_id inst) (tags d),
       ingredients := m2m_clear (recipe_id inst) (ingredients d)\<rparr>"

text \<open>The detail actions of \<^verbatim>\<open>RecipeViewSet\<close> (a model viewset): each starts with
  \<^verbatim>\<open>get_object()\<close> on \<^verbatim>\<open>get_queryset()\<close>. The update then validates the body,
  as a partial update for \<^verbatim>\<open>PATCH\<close> and as a full one for \<^verbatim>\<open>PUT\<close>, before the
  serializer's update runs.\<close>

definition RecipeViewSet_retrieve ::
  "db \<Rightarrow> int \<Rightarrow> string option \<Rightarrow> string option \<Rightarrow> int \<Rightarrow> db \<times> (error + recipe)" where
  "RecipeViewSet_retrieve d user tgs ings pk =
     (d, get_object recipe_id (RecipeViewSet_get_queryset d user tgs ings) pk)"

definition RecipeViewSet_update ::
  "db \<Rightarrow> int \<Rightarrow> string option \<Rightarrow> string option \<Rightarrow> int \<Rightarrow> bool \<Rightarrow> request_data
     \<Rightarrow> db \<times> (error + recipe)" where
  "RecipeViewSet_update d user tgs ings pk partial data =
     (case get_object recipe_id (RecipeViewSet_get_queryset d user tgs ings) pk of
        Inl e \<Rightarrow> (d, Inl e)
      | Inr inst \<Rightarrow>
          (case to_internal_value partial RecipeDetailSerializer_fields data of
             Inl e \<Rightarrow> (d, Inl e)
           | Inr vd \<Rightarrow> RecipeSerializer_update user inst vd d))"

definition RecipeViewSet_destroy ::
  "db \<Rightarrow> int \<Rightarrow> string option \<Rightarrow> string option \<Rightarrow> int \<Rightarrow> db \<times> (error + unit)" where
  "RecipeViewSet_destroy d user tgs ings pk =
     (case get_object recipe_id (RecipeViewSet_get_queryset d user tgs ings) pk of
        Inl e \<Rightarrow> (d, Inl e)
      | Inr inst \<Rightarrow> (delete_recipe inst d, Inr ()))"

text \<open>
  The create action: the body is validated in full, and
  \<^verbatim>\<open>RecipeViewSet.perform_create\<close>, \<^verbatim>\<open>serializer.save(user=self.request.user)\<close>, puts the
  authenticated user into the validated data and calls the serializer's create.
\<close>

definition RecipeViewSet_create :: "db \<Rightarrow> int \<Rightarrow> request_data \<Rightarrow> db \<times> (error + recipe)" where
  "RecipeViewSet_create d user data =
     (case to_internal_value False RecipeDetailSerializer_fields data of
        Inl e \<Rightarrow> (d, Inl e)
      | Inr vd \<Rightarrow>
          RecipeSerializer_create user
            (vd\<lparr>v_fields := (''user'', VInt user) # v_fields vd\<rparr>) d)"

section \<open>The tag and ingredient views\<close>

text \<open>
  \<^verbatim>\<open>queryset.filter(recipe__isnull=False)\<close>: the join with the many-to-many table gives
  an attribute once for each pair it stands in.
\<close>

definition filter_recipe_notnull :: "(int \<times> int) list \<Rightarrow> attr list \<Rightarrow> attr list" where
  "filter_recipe_notnull lnks qs =
     concat (map (\<lambda>a. map (\<lambda>l. a) (filter (\<lambda>l. snd l = attr_id a) lnks)) qs)"

text \<open>
  \<^verbatim>\<open>int(self.request.query_params.get(key, default))\<close>; \<open>None\<close> stands for the
  \<open>ValueError\<close> of \<^verbatim>\<open>int\<close>.
\<close>

definition query_int :: "string option \<Rightarrow> int \<Rightarrow> int option" where
  "query_int param dflt = (case param of None \<Rightarrow> Some dflt | Some s \<Rightarrow> int_of_str s)"

text \<open>
  \<^verbatim>\<open>BaseRecipeAttrViewSet.get_queryset(self)\<close> on the table of the viewset, for the
  authenticated user and the query parameter \<^verbatim>\<open>assigned_only\<close>.
\<close>

definition BaseRecipeAttrViewSet_get_queryset ::
  "attr_store \<Rightarrow> int \<Rightarrow> string option \<Rightarrow> error + attr list" where
  "BaseRecipeAttrViewSet_get_queryset st user param =
     (case query_int param 0 of
        None \<Rightarrow> Inl ValueError
      | Some n \<Rightarrow>
          (let assigned_only = (n \<noteq> 0);
               queryset = filter (\<lambda>a. attr_user a = user) (attr_rows st);
               queryset' = (if assigned_only then filter_recipe_notnull (links st) queryset
                            else queryset)
           in Inr (remdups (order_by_desc attr_name queryset'))))"

text \<open>\<^verbatim>\<open>instance.delete()\<close> on an attribute: its row and its pairs.\<close>

definition delete_attr :: "attr \<Rightarrow> attr_store \<Rightarrow> attr_store" where
  "delete_attr inst st =
     st\<lparr>attr_rows := filter (\<lambda>a. attr_id a \<noteq> attr_id inst) (attr_rows st),
        links := filter (\<lambda>l. snd l \<noteq> attr_id inst) (links st)\<rparr>"

text \<open>
  The update and destroy actions the mixins give \<^verbatim>\<open>BaseRecipeAttrViewSet\<close>; the mixins
  give it no retrieve action. The serializers of tags and ingredients write the field
  \<^verbatim>\<open>name\<close> only; the body of an update is a dictionary, with or without a name, that
  the serializer validates after \<^verbatim>\<open>get_object()\<close>.
\<close>

definition BaseRecipeAttrViewSet_update ::
  "attr_store \<Rightarrow> int \<Rightarrow> string option \<Rightarrow> int \<Rightarrow> bool \<Rightarrow> string option
     \<Rightarrow> attr_store \<times> (error + attr)" where
  "BaseRecipeAttrViewSet_update st user param pk partial new_name =
     (case get_object attr_id (BaseRecipeAttrViewSet_get_queryset st user param) pk of
        Inl e \<Rightarrow> (st, Inl e)
      | Inr inst \<Rightarrow>
          (case run_validation partial (Dict new_name) of
             Inl e \<Rightarrow> (st, Inl e)
           | Inr vd \<Rightarrow>
               (let inst' = (case kwargs vd of None \<Rightarrow> inst | Some n \<Rightarrow> inst\<lparr>attr_name := n\<rparr>)
                in (st\<lparr>attr_rows :=
                         map (\<lambda>a. if attr_id a = attr_id inst' then inst' else a) (attr_rows st)\<rparr>,
                    Inr inst'))))"

definition BaseRecipeAttrViewSet_destroy ::
  "attr_store \<Rightarrow> int \<Rightarrow> string option \<Rightarrow> int \<Rightarrow> attr_store \<times> (error + unit)" where
  "BaseRecipeAttrViewSet_destroy st user param pk =
     (case get_object attr_id (BaseRecipeAttrViewSet_get_queryset st user param) pk of
        Inl e \<Rightarrow> (st, Inl e)
      | Inr inst \<Rightarrow> (delete_attr inst st, Inr ()))"

text \<open>\<^verbatim>\<open>TagViewSet\<close> and \<^verbatim>\<open>IngredientViewset\<close>: the base viewset on their table.\<close>

definition TagViewSet_get_queryset :: "db \<Rightarrow> int \<Rightarrow> string option \<Rightarrow> error + attr list" where
  "TagViewSet_get_queryset d user param = BaseRecipeAttrViewSet_get_queryset (tags d) user param"

definition IngredientViewset_get_queryset :: "db \<Rightarrow> int \<Rightarrow> string option \<Rightarrow> error + attr list" where
  "IngredientViewset_get_queryset d user param =
     BaseRecipeAttrViewSet_get_queryset (ingredients d) user param"

definition TagViewSet_update ::
  "db \<Rightarrow> int \<Rightarrow> string option \<Rightarrow> int \<Rightarrow> bool \<Rightarrow> string option \<Rightarrow> db \<times> (error + attr)" where
  "TagViewSet_update d user param pk partial new_name =
     (case BaseRecipeAttrViewSet_update (tags d) user param pk partial new_name of
        (st, res) \<Rightarrow> (d\<lparr>tags := st\<rparr>, res))"

definition TagViewSet_destroy :: "db \<Rightarrow> int \<Rightarrow> string option \<Rightarrow> int \<Rightarrow> db \<times> (error + unit)" where
  "TagViewSet_destroy d user param pk =
     (case BaseRecipeAttrViewSet_destroy (tags d) user param pk of
        (st, res) \<Rightarrow> (d\<lparr>tags := st\<rparr>, res))"

definition IngredientViewset_update ::
  "db \<Rightarrow> int \<Rightarrow> string option \<Rightarrow> int \<Rightarrow> bool \<Rightarrow> string option \<Rightarrow> db \<times> (error + attr)" where
  "IngredientViewset_update d user param pk partial new_name =
     (case BaseRecipeAttrViewSet_update (ingredients d) user param pk partial new_name of
        (st, res) \<Rightarrow> (d\<lparr>ingredients := st\<rparr>, res))"

definition IngredientViewset_destroy :: "db \<Rightarrow> int \<Rightarrow> string option \<Rightarrow> int \<Rightarrow> db \<times> (error + unit)" where
  "IngredientViewset_destroy d user param pk =
     (case BaseRecipeAttrViewSet_destroy (ingredients d) user param pk of
        (st, res) \<Rightarrow> (d\<lparr>ingredients := st\<rparr>, res))"

text \<open>The status of a response: 200 for a result, the status of the exception otherwise.\<close>

definition response_status :: "error + 'a \<Rightarrow> nat" where
  "response_status res = (case res of Inl e \<Rightarrow> status_code e | Inr x \<Rightarrow> 200)"

section \<open>Notions the properties are stated with\<close>

text \<open>
  The reconciliation of the specification, on one attribute table: for each spec, look
  the attribute up by owner and name, create it when it is absent, and add it to the
  recipe's associations. A spec is the keyword arguments of one lookup.
\<close>

fun reconcile :: "int \<Rightarrow> string option list \<Rightarrow> int \<Rightarrow> attr_store \<Rightarrow> attr_store \<times> error option" where
  "reconcile u [] rid st = (st, None)"
| "reconcile u (kw # kws) rid st =
     (case objects_get_or_create u kw st of
        (st', Inl e) \<Rightarrow> (st', Some e)
      | (st', Inr obj) \<Rightarrow> reconcile u kws rid (m2m_add rid obj st'))"

text \<open>The entries the tag loop acts on.\<close>

definition tag_shaped :: "entry \<Rightarrow> bool" where
  "tag_shaped e = (isinstance_dict e \<and> name_in e)"

text \<open>The names the specs of a submitted list give.\<close>

definition spec_names :: "entry list \<Rightarrow> string list" where
  "spec_names es = List.map_filter kwargs es"

text \<open>The rows of an attribute table that belong to owner \<open>u\<close> and have the name \<open>n\<close>.\<close>

definition owned_named :: "int \<Rightarrow> string \<Rightarrow> attr_store \<Rightarrow> attr list" where
  "owned_named u n st = lookup_rows u (Some n) (attr_rows st)"

text \<open>The row a lookup without a match creates.\<close>

definition new_attr :: "int \<Rightarrow> string option \<Rightarrow> attr_store \<Rightarrow> attr" where
  "new_attr u kw st =
     \<lparr>attr_id = next_id st, attr_user = u, attr_name = (case kw of None \<Rightarrow> [] | Some n \<Rightarrow> n)\<rparr>"

text \<open>
  The attributes associated with a recipe (\<^verbatim>\<open>recipe.tags.all()\<close>), and the association
  set of the specification: the natural keys, owner and name, of those attributes.
\<close>

definition associated :: "attr_store \<Rightarrow> int \<Rightarrow> attr list" where
  "associated st rid = filter (\<lambda>a. (rid, attr_id a) \<in> set (links st)) (attr_rows st)"

definition assoc_keys :: "attr_store \<Rightarrow> int \<Rightarrow> (int \<times> string) set" where
  "assoc_keys st rid = set (map (\<lambda>a. (attr_user a, attr_name a)) (associated st rid))"


text \<open>A query string that is given, not empty, and has a piece that is no integer.\<close>

definition bad_tokens :: "string option \<Rightarrow> bool" where
  "bad_tokens p =
     (case p of
        None \<Rightarrow> False
      | Some s \<Rightarrow> s \<noteq> [] \<and> list_ex (\<lambda>t. int_of_str t = None) (split_on CHR '','' s))"

text \<open>The recipe listing: the ids a query parameter asks for, if it asks for any.\<close>

definition given_ids :: "string option \<Rightarrow> error + int list option" where
  "given_ids p =
     (case p of
        None \<Rightarrow> Inr None
      | Some s \<Rightarrow>
          if s = [] then Inr None
          else (case params_to_ints s of Inl e \<Rightarrow> Inl e | Inr ids \<Rightarrow> Inr (Some ids)))"

text \<open>The recipe \<open>rid\<close> has at least one attribute whose id is among the ids asked for.\<close>

fun has_one_of :: "int list option \<Rightarrow> (int \<times> int) list \<Rightarrow> int \<Rightarrow> bool" where
  "has_one_of None lnks rid = True"
| "has_one_of (Some ids) lnks rid = list_ex (\<lambda>i. (rid, i) \<in> set lnks) ids"

section \<open>What holds of every database\<close>

text \<open>What the database itself keeps of an attribute table: the primary key is unique,
  and the sequence is ahead of every id in use.\<close>

definition wf_store :: "attr_store \<Rightarrow> bool" where
  "wf_store st =
     (distinct (map attr_id (attr_rows st))
      \<and> list_all (\<lambda>a. attr_id a < next_id st) (attr_rows st)
      \<and> list_all (\<lambda>l. snd l < next_id st) (links st))"

text \<open>
  Every association joins a recipe and an attribute of one owner: a recipe is written
  with the attributes of its own owner only.
\<close>

definition links_owned :: "recipe list \<Rightarrow> attr_store \<Rightarrow> bool" where
  "links_owned rs st =
     (\<forall>l \<in> set (links st). \<forall>a \<in> set (attr_rows st).
        attr_id a = snd l \<longrightarrow> (\<exists>r \<in> set rs. recipe_id r = fst l \<and> recipe_user r = attr_user a))"

text \<open>
  Together: unique primary keys, sequences ahead of the ids in use, and associations
  within one owner.
\<close>

definition consistent :: "db \<Rightarrow> bool" where
  "consistent d =
     (distinct (map recipe_id (recipes d))
      \<and> list_all (\<lambda>r. recipe_id r < recipe_seq d) (recipes d)
      \<and> wf_store (tags d) \<and> wf_store (ingredients d)
      \<and> links_owned (recipes d) (tags d) \<and> links_owned (recipes d) (ingredients d))"

definition empty_db :: db where
  "empty_db =
     \<lparr>recipes = [], recipe_seq = 1,
      tags = \<lparr>attr_rows = [], links = [], next_id = 1\<rparr>,
      ingredients = \<lparr>attr_rows = [], links = [], next_id = 1\<rparr>\<rparr>"

text \<open>The databases the writing views lead to, from the empty one.\<close>

inductive reachable :: "db \<Rightarrow> bool" where
  start: "reachable empty_db"
| recipe_create: "reachable d \<Longrightarrow> reachable (fst (RecipeViewSet_create d user data))"
| recipe_update:
    "reachable d \<Longrightarrow> reachable (fst (RecipeViewSet_update d user tgs ings pk partial data))"
| recipe_destroy: "reachable d \<Longrightarrow> reachable (fst (RecipeViewSet_destroy d user tgs ings pk))"
| tag_update:
    "reachable d \<Longrightarrow> reachable (fst (TagViewSet_update d user param pk partial new_name))"
| tag_destroy: "reachable d \<Longrightarrow> reachable (fst (TagViewSet_destroy d user param pk))"
| ingredient_update:
    "reachable d \<Longrightarrow>
       reachable (fst (IngredientViewset_update d user param pk partial new_name))"
| ingredient_destroy:
    "reachable d \<Longrightarrow> reachable (fst (IngredientViewset_destroy d user param pk))"

section \<open>Example databases and requests\<close>

text \<open>A small database for the examples: user 1 owns recipe 1, tagged with tag 1.\<close>

definition example_recipe :: recipe where
  "example_recipe =
     \<lparr>recipe_id = 1, recipe_user = 1, title = ''Pongal'', time_minutes = 60,
      price = 450, link = [], description = []\<rparr>"

definition example_db :: db where
  "example_db =
     \<lparr>recipes = [example_recipe],
      recipe_seq = 2,
      tags = \<lparr>attr_rows = [\<lparr>attr_id = 1, attr_user = 1, attr_name = ''Indian''\<rparr>],
              links = [(1, 1)], next_id = 2\<rparr>,
      ingredients = \<lparr>attr_rows = [], links = [], next_id = 1\<rparr>\<rparr>"

text \<open>Two recipes of user 1 that share the tag Breakfast and the ingredient Eggs.\<close>

definition two_recipes_db :: db where
  "two_recipes_db =
     \<lparr>recipes = [example_recipe, example_recipe\<lparr>recipe_id := 2, title := ''Pancakes''\<rparr>],
      recipe_seq = 3,
      tags = \<lparr>attr_rows = [\<lparr>attr_id = 1, attr_user = 1, attr_name = ''Breakfast''\<rparr>,
                            \<lparr>attr_id = 2, attr_user = 1, attr_name = ''Lunch''\<rparr>],
              links = [(1, 1), (2, 1)], next_id = 3\<rparr>,
      ingredients = \<lparr>attr_rows = [\<lparr>attr_id = 1, attr_user = 1, attr_name = ''Eggs''\<rparr>,
                                   \<lparr>attr_id = 2, attr_user = 1, attr_name = ''Lentils''\<rparr>],
              links = [(1, 1), (2, 1)], next_id = 3\<rparr>\<rparr>"

text \<open>
  Two users: user 1 owns recipe 1 and the tag Indian, user 2 owns recipe 2, the tag
  Vegan and the ingredient Salt.
\<close>

definition foreign_db :: db where
  "foreign_db =
     \<lparr>recipes = [example_recipe, example_recipe\<lparr>recipe_id := 2, recipe_user := 2\<rparr>],
      recipe_seq = 3,
      tags = \<lparr>attr_rows = [\<lparr>attr_id = 1, attr_user = 1, attr_name = ''Indian''\<rparr>,
                            \<lparr>attr_id = 2, attr_user = 2, attr_name = ''Vegan''\<rparr>],
              links = [(1, 1), (2, 2)], next_id = 3\<rparr>,
      ingredients = \<lparr>attr_rows = [\<lparr>attr_id = 1, attr_user = 2, attr_name = ''Salt''\<rparr>],
              links = [(2, 1)], next_id = 2\<rparr>\<rparr>"






text \<open>A request body that names another user as the owner.\<close>

definition example_data :: request_data where
  "example_data =
     \<lparr>d_tags = None, d_ingredients = None,
      d_fields = [(''user'', VInt 2), (''title'', VStr ''Idli'')]\<rparr>"





section \<open>The two loops carry out the reconciliation\<close>

lemma get_or_create_tags_Cons:
  "get_or_create_tags u (e # es) rcp d =
     (if tag_shaped e then
        (case objects_get_or_create u (kwargs e) (tags d) of
           (st, Inl x) \<Rightarrow> (d\<lparr>tags := st\<rparr>, Some x)
         | (st, Inr obj) \<Rightarrow>
             get_or_create_tags u es rcp (d\<lparr>tags := m2m_add (recipe_id rcp) obj st\<rparr>))
      else get_or_create_tags u es rcp d)"
  by (simp add: tag_shaped_def)

lemma tags_refine:
  "get_or_create_tags u es rcp d =
     (case reconcile u (map kwargs (filter tag_shaped es)) (recipe_id rcp) (tags d) of
        (st, e) \<Rightarrow> (d\<lparr>tags := st\<rparr>, e))"
proof (induction es arbitrary: d)
  case Nil
  then show ?case by simp
next
  case (Cons e es)
  show ?case
  proof (cases "tag_shaped e")
    case True
    obtain st res where o: "objects_get_or_create u (kwargs e) (tags d) = (st, res)"
      by (cases "objects_get_or_create u (kwargs e) (tags d)")
    show ?thesis
      using True o Cons.IH[of "d\<lparr>tags := m2m_add (recipe_id rcp) (projr res) st\<rparr>"]
      by (cases res) (simp_all add: get_or_create_tags_Cons del: get_or_create_tags.simps)
  next
    case False
    then show ?thesis
      using Cons.IH[of d] by (simp add: get_or_create_tags_Cons del: get_or_create_tags.simps)
  qed
qed

lemma ingredients_refine:
  "get_or_create_ingredients u es rcp d =
     (case reconcile u (map kwargs (takeWhile isinstance_dict es)) (recipe_id rcp) (ingredients d) of
        (st, Some e) \<Rightarrow> (d\<lparr>ingredients := st\<rparr>, Some e)
      | (st, None) \<Rightarrow>
          (d\<lparr>ingredients := st\<rparr>, if list_all isinstance_dict es then None else Some TypeError))"
proof (induction es arbitrary: d)
  case Nil
  then show ?case by simp
next
  case (Cons e es)
  show ?case
  proof (cases "isinstance_dict e")
    case True
    then show ?thesis
      using Cons.IH by (auto split: prod.splits sum.splits option.splits)
  next
    case False
    then show ?thesis by simp
  qed
qed

section \<open>The reconciliation on one attribute table\<close>

lemma ogc_none:
  "lookup_rows u kw (attr_rows st) = [] \<Longrightarrow>
     objects_get_or_create u kw st =
       (st\<lparr>attr_rows := attr_rows st @ [new_attr u kw st], next_id := next_id st + 1\<rparr>,
        Inr (new_attr u kw st))"
  by (simp add: objects_get_or_create_def new_attr_def Let_def)

lemma ogc_one:
  "lookup_rows u kw (attr_rows st) = [a] \<Longrightarrow> objects_get_or_create u kw st = (st, Inr a)"
  by (simp add: objects_get_or_create_def)

lemma ogc_many:
  "2 \<le> length (lookup_rows u kw (attr_rows st)) \<Longrightarrow>
     objects_get_or_create u kw st = (st, Inl MultipleObjectsReturned)"
  by (cases "lookup_rows u kw (attr_rows st)")
     (auto simp: objects_get_or_create_def split: list.splits)

lemma lookup_cases:
  obtains (none) "lookup_rows u kw rs = []"
  | (one) a where "lookup_rows u kw rs = [a]"
  | (many) "2 \<le> length (lookup_rows u kw rs)"
proof (cases "lookup_rows u kw rs")
  case Nil
  then show ?thesis by (rule none)
next
  case (Cons a xs)
  then show ?thesis by (cases xs) (auto intro: one many)
qed





lemma m2m_add_rows [simp]: "attr_rows (m2m_add rid obj st) = attr_rows st"
  by (simp add: m2m_add_def)

lemma m2m_add_next_id [simp]: "next_id (m2m_add rid obj st) = next_id st"
  by (simp add: m2m_add_def)

lemma set_links_m2m_add [simp]:
  "set (links (m2m_add rid obj st)) = insert (rid, attr_id obj) (set (links st))"
  by (auto simp: m2m_add_def)


lemma ogc_links [simp]: "links (fst (objects_get_or_create u kw st)) = links st"
  by (cases u kw "attr_rows st" rule: lookup_cases) (simp_all add: ogc_none ogc_one ogc_many)

lemma reconcile_links_mono:
  "set (links st) \<subseteq> set (links (fst (reconcile u kws rid st)))"
proof (induction kws arbitrary: st)
  case Nil
  then show ?case by simp
next
  case (Cons kw kws)
  obtain st1 res where o: "objects_get_or_create u kw st = (st1, res)"
    by (cases "objects_get_or_create u kw st")
  have l: "links st1 = links st" using ogc_links[of u kw st] o by simp
  show ?case
  proof (cases res)
    case (Inl e)
    then show ?thesis using o l by simp
  next
    case (Inr obj)
    show ?thesis using Cons.IH[of "m2m_add rid obj st1"] o Inr l by auto
  qed
qed


lemma lookup_rows_subset: "set (lookup_rows u kw rs) \<subseteq> set rs"
  by (auto simp: lookup_rows_def)

lemma lookup_rows_user: "a \<in> set (lookup_rows u kw rs) \<Longrightarrow> attr_user a = u"
  by (simp add: lookup_rows_def)

lemma lookup_rows_name: "a \<in> set (lookup_rows u (Some n) rs) \<Longrightarrow> attr_name a = n"
  by (simp add: lookup_rows_def)

lemma ogc_obj:
  assumes "objects_get_or_create u kw st = (st', Inr obj)"
  shows "obj \<in> set (attr_rows st') \<and> attr_user obj = u \<and> (\<forall>n. kw = Some n \<longrightarrow> attr_name obj = n)"
proof (cases u kw "attr_rows st" rule: lookup_cases)
  case none
  then show ?thesis using assms by (auto simp: ogc_none new_attr_def)
next
  case (one a)
  then have m: "a \<in> set (lookup_rows u kw (attr_rows st))" by simp
  have e: "st' = st" "obj = a" using assms one by (simp_all add: ogc_one)
  have "a \<in> set (attr_rows st)" using m lookup_rows_subset by blast
  moreover have "attr_user a = u" using m by (rule lookup_rows_user)
  moreover have "\<forall>n. kw = Some n \<longrightarrow> attr_name a = n"
    using m by (auto dest: lookup_rows_name)
  ultimately show ?thesis using e by simp
next
  case many
  then show ?thesis using assms by (simp add: ogc_many)
qed

lemma wf_ogc: "wf_store st \<Longrightarrow> wf_store (fst (objects_get_or_create u kw st))"
proof (cases u kw "attr_rows st" rule: lookup_cases)
  case none
  assume "wf_store st"
  then show ?thesis using none
    by (auto simp: ogc_none wf_store_def new_attr_def list_all_iff)
next
  case (one a)
  assume "wf_store st"
  then show ?thesis using one by (simp add: ogc_one)
next
  case many
  assume "wf_store st"
  then show ?thesis using many by (simp add: ogc_many)
qed

lemma wf_m2m_add:
  "wf_store st \<Longrightarrow> a \<in> set (attr_rows st) \<Longrightarrow> wf_store (m2m_add rid a st)"
  by (auto simp: wf_store_def m2m_add_def list_all_iff)

lemma wf_m2m_clear: "wf_store st \<Longrightarrow> wf_store (m2m_clear rid st)"
  by (auto simp: wf_store_def m2m_clear_def list_all_iff)

lemma set_associated:
  "set (associated st rid) = {a \<in> set (attr_rows st). (rid, attr_id a) \<in> set (links st)}"
  by (auto simp: associated_def)




lemma wf_reconcile:
  "wf_store st \<Longrightarrow> wf_store (fst (reconcile u kws rid st))"
proof (induction kws arbitrary: st)
  case Nil
  then show ?case by simp
next
  case (Cons kw kws)
  obtain st1 res where o: "objects_get_or_create u kw st = (st1, res)"
    by (cases "objects_get_or_create u kw st")
  have wf1: "wf_store st1" using wf_ogc[OF Cons.prems, of u kw] o by simp
  show ?case
  proof (cases res)
    case (Inl e)
    then show ?thesis using o wf1 by simp
  next
    case (Inr obj)
    have "obj \<in> set (attr_rows st1)" using ogc_obj[OF o[unfolded Inr]] by simp
    from Cons.IH[OF wf_m2m_add[OF wf1 this]] show ?thesis using o Inr by simp
  qed
qed


lemma kwargs_tag_shaped: "map kwargs (filter tag_shaped es) = map Some (spec_names es)"
proof (induction es)
  case Nil
  then show ?case by (simp add: spec_names_def List.map_filter_simps)
next
  case (Cons e es)
  then show ?case
    by (cases e) (auto simp: spec_names_def List.map_filter_simps tag_shaped_def)
qed



section \<open>Parsing the id lists\<close>

lemma int_each_bad:
  "list_ex (\<lambda>t. int_of_str t = None) ts \<Longrightarrow> int_each ts = Inl ValueError"
  by (induction ts) (auto split: option.splits sum.splits)

lemma int_each_good:
  "\<not> list_ex (\<lambda>t. int_of_str t = None) ts \<Longrightarrow>
     int_each ts = Inr (map (\<lambda>t. the (int_of_str t)) ts)"
  by (induction ts) (auto split: option.splits sum.splits)

lemma int_each_cases: "int_each ts = Inl ValueError \<or> (\<exists>ids. int_each ts = Inr ids)"
  by (induction ts) (auto split: option.splits sum.splits)

text \<open>
  The separators 28 to 31 are no white space for \<^verbatim>\<open>int\<close>, at either end of the
  number; the no-break space and the form feed are. \<^verbatim>\<open>str.strip\<close> drops them all.
\<close>

lemma int_of_str_separators:
  "int_of_str [CHR 0x1C, CHR ''1''] = None
   \<and> int_of_str [CHR ''1'', CHR 0x1F] = None
   \<and> int_of_str [CHR 0xA0, CHR ''1'', CHR 0x0C] = Some 1
   \<and> str_strip [CHR 0x1C, CHR ''a'', CHR 0x1F] = ''a''"
  by code_simp

lemma get_queryset_bad:
  assumes "bad_tokens tgs \<or> bad_tokens ings"
  shows "RecipeViewSet_get_queryset d user tgs ings = Inl ValueError"
proof (cases "bad_tokens tgs")
  case True
  then show ?thesis
    by (auto simp: bad_tokens_def RecipeViewSet_get_queryset_def params_to_ints_def
        int_each_bad split: option.splits)
next
  case False
  with assms have b: "bad_tokens ings" by simp
  then obtain s where s: "ings = Some s" "s \<noteq> []" "params_to_ints s = Inl ValueError"
    by (auto simp: bad_tokens_def params_to_ints_def int_each_bad split: option.splits)
  show ?thesis
  proof (cases tgs)
    case None
    then show ?thesis using s by (simp add: RecipeViewSet_get_queryset_def)
  next
    case (Some t)
    show ?thesis
      using int_each_cases[of "split_on CHR '','' t"] s Some
      by (auto simp: RecipeViewSet_get_queryset_def params_to_ints_def)
  qed
qed

section \<open>Properties of the listing filters\<close>

text \<open>
  C10. A \<^verbatim>\<open>tags\<close> or \<^verbatim>\<open>ingredients\<close> query parameter that is present but empty
  applies no id filter: the listing is the one of the request without the parameter,
  and with both parameters empty it is the owner's whole listing. The empty string is
  neither parsed nor rejected.
\<close>

theorem empty_filter_is_no_filter:
  "RecipeViewSet_get_queryset d user (Some []) ings = RecipeViewSet_get_queryset d user None ings
   \<and> RecipeViewSet_get_queryset d user tgs (Some []) = RecipeViewSet_get_queryset d user tgs None
   \<and> RecipeViewSet_get_queryset d user (Some []) (Some []) =
       Inr (remdups (order_by_desc recipe_id (filter (\<lambda>r. recipe_user r = user) (recipes d))))"
  by (simp add: RecipeViewSet_get_queryset_def split: sum.splits option.splits)

text \<open>
  C6, as the source has it. A listing request whose \<^verbatim>\<open>tags\<close> or \<^verbatim>\<open>ingredients\<close>
  query string is not empty and has a piece that is no integer ends in the
  \<open>ValueError\<close> of \<^verbatim>\<open>int\<close>, which nothing catches: the answer is a server error
  (500), not a validation failure (400).
\<close>

theorem non_integer_token_raises_ValueError:
  assumes "bad_tokens tgs \<or> bad_tokens ings"
  shows "RecipeViewSet_get_queryset d user tgs ings = Inl ValueError
         \<and> response_status (RecipeViewSet_get_queryset d user tgs ings) = 500"
  using get_queryset_bad[OF assms, of d user] by (simp add: response_status_def)

theorem non_integer_token_raises_ValueError_witness:
  "bad_tokens (Some ''1,x'')
   \<and> RecipeViewSet_get_queryset example_db 1 (Some ''1,x'') None = Inl ValueError
   \<and> response_status (RecipeViewSet_get_queryset example_db 1 (Some ''1,x'') None) = 500
   \<and> bad_tokens (Some [CHR 0x1C, CHR ''1''])
   \<and> RecipeViewSet_get_queryset example_db 1 None (Some [CHR 0x1C, CHR ''1'']) = Inl ValueError"
proof -
  have h: "bad_tokens (Some ''1,x'')" by code_simp
  have h2: "bad_tokens (Some [CHR 0x1C, CHR ''1''])" by code_simp
  show ?thesis
    using h h2 non_integer_token_raises_ValueError[of "Some ''1,x''" None example_db 1]
      non_integer_token_raises_ValueError[of None "Some [CHR 0x1C, CHR ''1'']" example_db 1]
    by (simp add: response_status_def)
qed

text \<open>
  The claim C6 as the specification states it, a validation failure with status 400,
  fails for the query string \<^verbatim>\<open>tags=abc\<close>.
\<close>

theorem non_integer_token_not_400:
  "RecipeViewSet_get_queryset example_db 1 (Some ''abc'') None = Inl ValueError
   \<and> response_status (RecipeViewSet_get_queryset example_db 1 (Some ''abc'') None) \<noteq> 400"
  by code_simp

section \<open>Properties of the shape check\<close>

lemma ogc_rows_mono:
  "set (attr_rows st) \<subseteq> set (attr_rows (fst (objects_get_or_create u kw st)))"
  by (cases u kw "attr_rows st" rule: lookup_cases) (auto simp: ogc_none ogc_one ogc_many)

lemma reconcile_rows_mono:
  "set (attr_rows st) \<subseteq> set (attr_rows (fst (reconcile u kws rid st)))"
proof (induction kws arbitrary: st)
  case Nil
  then show ?case by simp
next
  case (Cons kw kws)
  obtain st1 res where o: "objects_get_or_create u kw st = (st1, res)"
    by (cases "objects_get_or_create u kw st")
  have r: "set (attr_rows st) \<subseteq> set (attr_rows st1)" using ogc_rows_mono[of st u kw] o by simp
  show ?case
  proof (cases res)
    case (Inl e)
    then show ?thesis using o r by simp
  next
    case (Inr obj)
    show ?thesis using Cons.IH[of "m2m_add rid obj st1"] o Inr r by auto
  qed
qed

lemma ogc_obj_lookup:
  assumes "objects_get_or_create u kw st = (st', Inr obj)"
  shows "obj \<in> set (lookup_rows u kw (attr_rows st'))"
proof (cases u kw "attr_rows st" rule: lookup_cases)
  case none
  then show ?thesis
    using assms by (cases kw) (auto simp: ogc_none new_attr_def lookup_rows_def)
next
  case (one a)
  then show ?thesis using assms by (auto simp: ogc_one)
next
  case many
  then show ?thesis using assms by (simp add: ogc_many)
qed

lemma lookup_rows_mono:
  "set rs \<subseteq> set rs' \<Longrightarrow> set (lookup_rows u kw rs) \<subseteq> set (lookup_rows u kw rs')"
  by (auto simp: lookup_rows_def)

lemma reconcile_every_spec_associated:
  assumes "snd (reconcile u kws rid st) = None" and "kw \<in> set kws"
  shows "\<exists>a \<in> set (associated (fst (reconcile u kws rid st)) rid).
           a \<in> set (lookup_rows u kw (attr_rows (fst (reconcile u kws rid st))))"
  using assms
proof (induction kws arbitrary: st)
  case Nil
  then show ?case by simp
next
  case (Cons k kws)
  obtain st1 res where o: "objects_get_or_create u k st = (st1, res)"
    by (cases "objects_get_or_create u k st")
  from Cons.prems(1) o obtain obj where res: "res = Inr obj"
    by (cases res) auto
  let ?st2 = "m2m_add rid obj st1"
  let ?st' = "fst (reconcile u kws rid ?st2)"
  have step: "reconcile u (k # kws) rid st = reconcile u kws rid ?st2"
    using o res by simp
  have s: "snd (reconcile u kws rid ?st2) = None" using Cons.prems(1) step by simp
  show ?case
  proof (cases "kw = k")
    case True
    have "obj \<in> set (lookup_rows u kw (attr_rows ?st2))"
      using ogc_obj_lookup[OF o[unfolded res]] True by simp
    then have l: "obj \<in> set (lookup_rows u kw (attr_rows ?st'))"
      using lookup_rows_mono[OF reconcile_rows_mono[of ?st2 u kws rid], of u kw] by blast
    then have r: "obj \<in> set (attr_rows ?st')" using lookup_rows_subset by blast
    have "(rid, attr_id obj) \<in> set (links ?st2)" by simp
    then have "(rid, attr_id obj) \<in> set (links ?st')"
      using reconcile_links_mono by blast
    then have "obj \<in> set (associated ?st' rid)" using r by (simp add: set_associated)
    then show ?thesis unfolding step using l by blast
  next
    case False
    with Cons.prems(2) have "kw \<in> set kws" by simp
    from Cons.IH[OF s this] show ?thesis unfolding step .
  qed
qed

lemma goi_returns:
  assumes "snd (get_or_create_ingredients u es rcp d) = None"
  shows "list_all isinstance_dict es"
    and "ingredients (fst (get_or_create_ingredients u es rcp d)) =
           fst (reconcile u (map kwargs es) (recipe_id rcp) (ingredients d))"
    and "snd (reconcile u (map kwargs es) (recipe_id rcp) (ingredients d)) = None"
proof -
  show a: "list_all isinstance_dict es"
    using assms unfolding ingredients_refine
    by (auto split: prod.splits option.splits if_splits)
  then have t: "takeWhile isinstance_dict es = es" by (simp add: list_all_iff)
  show "snd (reconcile u (map kwargs es) (recipe_id rcp) (ingredients d)) = None"
    using assms unfolding ingredients_refine t
    by (auto split: prod.splits option.splits if_splits)
  show "ingredients (fst (get_or_create_ingredients u es rcp d)) =
           fst (reconcile u (map kwargs es) (recipe_id rcp) (ingredients d))"
    unfolding ingredients_refine t by (simp split: prod.splits option.splits)
qed

lemma goi_NotDict_raises:
  "snd (get_or_create_ingredients u (es @ NotDict # xs) rcp d) \<noteq> None"
proof
  assume "snd (get_or_create_ingredients u (es @ NotDict # xs) rcp d) = None"
  from goi_returns(1)[OF this] show False by simp
qed

text \<open>
  C9. The tag loop passes over every entry that is not a dictionary with the key
  \<^verbatim>\<open>name\<close>: the call does what it does on the list without those entries, and on a list
  of such entries only it changes nothing and raises nothing.

  The ingredient loop has no such check and takes every entry of its list, in order:
  it is the reconciliation on the keyword arguments of all entries up to the first that
  is not a dictionary, which raises \<open>TypeError\<close> after the entries before it have been
  written. A dictionary without a name is looked up like any other, by the user alone,
  so that for a user without ingredients an ingredient with the empty name is created
  and associated. When the loop returns, every entry was a dictionary, and every entry
  has an ingredient among the recipe's that matches its lookup; with an entry that is
  not a dictionary anywhere in the list the loop does not return.
\<close>

theorem tags_skip_unshaped_ingredients_do_not:
  "get_or_create_tags u es rcp d = get_or_create_tags u (filter tag_shaped es) rcp d
   \<and> (list_all (\<lambda>e. \<not> tag_shaped e) es \<longrightarrow> get_or_create_tags u es rcp d = (d, None))
   \<and> get_or_create_ingredients u (NotDict # es) rcp d = (d, Some TypeError)
   \<and> (lookup_rows u None (attr_rows (ingredients d)) = [] \<longrightarrow>
        get_or_create_ingredients u [Dict None] rcp d =
          (d\<lparr>ingredients := (ingredients d)
                \<lparr>attr_rows := attr_rows (ingredients d) @
                    [\<lparr>attr_id = next_id (ingredients d), attr_user = u, attr_name = []\<rparr>],
                  links := (if (recipe_id rcp, next_id (ingredients d)) \<in> set (links (ingredients d))
                            then links (ingredients d)
                            else links (ingredients d) @ [(recipe_id rcp, next_id (ingredients d))]),
                  next_id := next_id (ingredients d) + 1\<rparr>\<rparr>, None))
   \<and> get_or_create_ingredients u xs rcp d =
       (case reconcile u (map kwargs (takeWhile isinstance_dict xs)) (recipe_id rcp) (ingredients d) of
          (st, Some e) \<Rightarrow> (d\<lparr>ingredients := st\<rparr>, Some e)
        | (st, None) \<Rightarrow>
            (d\<lparr>ingredients := st\<rparr>, if list_all isinstance_dict xs then None else Some TypeError))
   \<and> (snd (get_or_create_ingredients u xs rcp d) = None \<longrightarrow>
        list_all isinstance_dict xs
        \<and> (\<forall>kw. Dict kw \<in> set xs \<longrightarrow>
             (\<exists>a \<in> set (associated (ingredients (fst (get_or_create_ingredients u xs rcp d)))
                          (recipe_id rcp)).
                a \<in> set (lookup_rows u kw
                     (attr_rows (ingredients (fst (get_or_create_ingredients u xs rcp d))))))))
   \<and> snd (get_or_create_ingredients u (xs @ NotDict # es) rcp d) \<noteq> None"
proof -
  have f: "filter tag_shaped (filter tag_shaped es) = filter tag_shaped es" by simp
  have a: "get_or_create_tags u es rcp d = get_or_create_tags u (filter tag_shaped es) rcp d"
    unfolding tags_refine[of u es] tags_refine[of u "filter tag_shaped es"] f ..
  have b: "list_all (\<lambda>e. \<not> tag_shaped e) es \<longrightarrow> get_or_create_tags u es rcp d = (d, None)"
  proof
    assume "list_all (\<lambda>e. \<not> tag_shaped e) es"
    then have "filter tag_shaped es = []" by (simp add: list_all_iff filter_empty_conv)
    then show "get_or_create_tags u es rcp d = (d, None)"
      by (simp add: tags_refine)
  qed
  have c: "get_or_create_ingredients u (NotDict # es) rcp d = (d, Some TypeError)" by simp
  have e: "lookup_rows u None (attr_rows (ingredients d)) = [] \<longrightarrow>
        get_or_create_ingredients u [Dict None] rcp d =
          (d\<lparr>ingredients := (ingredients d)
                \<lparr>attr_rows := attr_rows (ingredients d) @
                    [\<lparr>attr_id = next_id (ingredients d), attr_user = u, attr_name = []\<rparr>],
                  links := (if (recipe_id rcp, next_id (ingredients d)) \<in> set (links (ingredients d))
                            then links (ingredients d)
                            else links (ingredients d) @ [(recipe_id rcp, next_id (ingredients d))]),
                  next_id := next_id (ingredients d) + 1\<rparr>\<rparr>, None)"
    by (auto simp: objects_get_or_create_def m2m_add_def Let_def)
  have g: "snd (get_or_create_ingredients u xs rcp d) = None \<longrightarrow>
        list_all isinstance_dict xs
        \<and> (\<forall>kw. Dict kw \<in> set xs \<longrightarrow>
             (\<exists>a \<in> set (associated (ingredients (fst (get_or_create_ingredients u xs rcp d)))
                          (recipe_id rcp)).
                a \<in> set (lookup_rows u kw
                     (attr_rows (ingredients (fst (get_or_create_ingredients u xs rcp d)))))))"
  proof (intro impI conjI allI)
    assume r: "snd (get_or_create_ingredients u xs rcp d) = None"
    show "list_all isinstance_dict xs" by (rule goi_returns(1)[OF r])
    fix kw assume "Dict kw \<in> set xs"
    then have "kwargs (Dict kw) \<in> kwargs ` set xs" by (rule imageI)
    then have m: "kw \<in> set (map kwargs xs)" by simp
    show "\<exists>a \<in> set (associated (ingredients (fst (get_or_create_ingredients u xs rcp d)))
                          (recipe_id rcp)).
                a \<in> set (lookup_rows u kw
                     (attr_rows (ingredients (fst (get_or_create_ingredients u xs rcp d)))))"
      unfolding goi_returns(2)[OF r]
      by (rule reconcile_every_spec_associated[OF goi_returns(3)[OF r] m])
  qed
  show ?thesis
    using a b c e g ingredients_refine[of u xs rcp d] goi_NotDict_raises[of u xs es rcp d]
    by blast
qed

theorem tags_skip_unshaped_ingredients_do_not_witness:
  "list_all (\<lambda>e. \<not> tag_shaped e) [NotDict, Dict None]
   \<and> get_or_create_tags 1 [NotDict, Dict None] example_recipe example_db = (example_db, None)
   \<and> get_or_create_ingredients 1 [NotDict, Dict None] example_recipe example_db
       = (example_db, Some TypeError)
   \<and> lookup_rows 1 None (attr_rows (ingredients example_db)) = []
   \<and> ingredients (fst (get_or_create_ingredients 1 [Dict None] example_recipe example_db)) =
       \<lparr>attr_rows = [\<lparr>attr_id = 1, attr_user = 1, attr_name = []\<rparr>],
        links = [(1, 1)], next_id = 2\<rparr>
   \<and> snd (get_or_create_ingredients 1 [Dict (Some ''Rice''), Dict (Some ''Dal'')]
             example_recipe example_db) = None
   \<and> Dict (Some ''Dal'') \<in> set [Dict (Some ''Rice''), Dict (Some ''Dal'')]
   \<and> (\<exists>a \<in> set (associated (ingredients (fst (get_or_create_ingredients 1
                      [Dict (Some ''Rice''), Dict (Some ''Dal'')] example_recipe example_db))) 1).
          attr_user a = 1 \<and> attr_name a = ''Dal'')
   \<and> get_or_create_ingredients 1 [Dict (Some ''Rice''), Dict (Some ''Dal''), NotDict, Dict None]
        example_recipe example_db
       = (example_db\<lparr>ingredients :=
            \<lparr>attr_rows = [\<lparr>attr_id = 1, attr_user = 1, attr_name = ''Rice''\<rparr>,
                           \<lparr>attr_id = 2, attr_user = 1, attr_name = ''Dal''\<rparr>],
             links = [(1, 1), (1, 2)], next_id = 3\<rparr>\<rparr>, Some TypeError)"
proof -
  let ?xs = "[Dict (Some ''Rice''), Dict (Some ''Dal'')]"
  have h1: "list_all (\<lambda>e. \<not> tag_shaped e) [NotDict, Dict None]"
    by (simp add: tag_shaped_def)
  have h2: "lookup_rows 1 None (attr_rows (ingredients example_db)) = []"
    by (simp add: example_db_def lookup_rows_def)
  have h3: "snd (get_or_create_ingredients 1 ?xs example_recipe example_db) = None"
    by code_simp
  have h4: "Dict (Some ''Dal'') \<in> set ?xs" by simp
  have rid: "recipe_id example_recipe = 1" by (simp add: example_recipe_def)
  note t = tags_skip_unshaped_ingredients_do_not[of 1 "[NotDict, Dict None]" example_recipe example_db ?xs]
  have a: "get_or_create_tags 1 [NotDict, Dict None] example_recipe example_db = (example_db, None)"
    using t h1 by blast
  have b: "get_or_create_ingredients 1 [NotDict, Dict None] example_recipe example_db
       = (example_db, Some TypeError)" by simp
  have "get_or_create_ingredients 1 [Dict None] example_recipe example_db =
          (example_db\<lparr>ingredients := (ingredients example_db)
                \<lparr>attr_rows := attr_rows (ingredients example_db) @
                    [\<lparr>attr_id = next_id (ingredients example_db), attr_user = 1, attr_name = []\<rparr>],
                  links := (if (recipe_id example_recipe, next_id (ingredients example_db))
                               \<in> set (links (ingredients example_db))
                            then links (ingredients example_db)
                            else links (ingredients example_db) @
                                   [(recipe_id example_recipe, next_id (ingredients example_db))]),
                  next_id := next_id (ingredients example_db) + 1\<rparr>\<rparr>, None)"
    using t h2 by blast
  then have c: "ingredients (fst (get_or_create_ingredients 1 [Dict None] example_recipe example_db)) =
       \<lparr>attr_rows = [\<lparr>attr_id = 1, attr_user = 1, attr_name = []\<rparr>],
        links = [(1, 1)], next_id = 2\<rparr>"
    by (simp add: example_db_def example_recipe_def)
  have "\<exists>a \<in> set (associated (ingredients (fst (get_or_create_ingredients 1 ?xs
                      example_recipe example_db))) (recipe_id example_recipe)).
          a \<in> set (lookup_rows 1 (Some ''Dal'')
                (attr_rows (ingredients (fst (get_or_create_ingredients 1 ?xs
                      example_recipe example_db)))))"
    using t h3 h4 by blast
  then have k: "\<exists>a \<in> set (associated (ingredients (fst (get_or_create_ingredients 1 ?xs
                      example_recipe example_db))) 1).
          attr_user a = 1 \<and> attr_name a = ''Dal''"
    unfolding rid using lookup_rows_user lookup_rows_name by blast
  have e: "get_or_create_ingredients 1 [Dict (Some ''Rice''), Dict (Some ''Dal''), NotDict, Dict None]
        example_recipe example_db
       = (example_db\<lparr>ingredients :=
            \<lparr>attr_rows = [\<lparr>attr_id = 1, attr_user = 1, attr_name = ''Rice''\<rparr>,
                           \<lparr>attr_id = 2, attr_user = 1, attr_name = ''Dal''\<rparr>],
             links = [(1, 1), (1, 2)], next_id = 3\<rparr>\<rparr>, Some TypeError)"
    by code_simp
  show ?thesis by (intro conjI h1 a b h2 c h3 h4 k e)
qed

section \<open>Properties of the listings\<close>

lemma set_filter_related_in:
  "set (filter_related_in lnks ids qs) =
     {r \<in> set qs. \<exists>i \<in> set ids. (recipe_id r, i) \<in> set lnks}"
proof -
  have "r \<in> set (filter_related_in lnks ids qs) \<longleftrightarrow>
          r \<in> set qs \<and> (\<exists>i \<in> set ids. (recipe_id r, i) \<in> set lnks)" for r
  proof
    assume "r \<in> set (filter_related_in lnks ids qs)"
    then show "r \<in> set qs \<and> (\<exists>i \<in> set ids. (recipe_id r, i) \<in> set lnks)"
      by (auto simp: filter_related_in_def)
  next
    assume a: "r \<in> set qs \<and> (\<exists>i \<in> set ids. (recipe_id r, i) \<in> set lnks)"
    then obtain i where i: "i \<in> set ids" "(recipe_id r, i) \<in> set lnks" by blast
    then have "(recipe_id r, i) \<in> {l \<in> set lnks. fst l = recipe_id r \<and> snd l \<in> set ids}"
      by simp
    then show "r \<in> set (filter_related_in lnks ids qs)"
      using a by (force simp: filter_related_in_def)
  qed
  then show ?thesis by blast
qed

lemma sorted_wrt_remdups: "sorted_wrt P xs \<Longrightarrow> sorted_wrt P (remdups xs)"
  by (induction xs) auto

lemma order_by_desc_sorted: "sorted_wrt (\<lambda>a b. k b \<le> k a) (order_by_desc k qs)"
proof -
  have "sorted (map k (sort_key k qs))" by simp
  then have "sorted_wrt (\<lambda>a b. k a \<le> k b) (sort_key k qs)"
    by (simp add: sorted_map)
  then show ?thesis
    by (simp add: order_by_desc_def sorted_wrt_rev)
qed

lemma set_order_by_desc: "set (order_by_desc k qs) = set qs"
  by (simp add: order_by_desc_def)

lemma get_queryset_given:
  assumes "given_ids tgs = Inr T" and "given_ids ings = Inr I"
  shows "RecipeViewSet_get_queryset d user tgs ings =
     Inr (remdups (order_by_desc recipe_id (filter (\<lambda>r. recipe_user r = user)
       ((case I of None \<Rightarrow> id | Some ids \<Rightarrow> filter_related_in (links (ingredients d)) ids)
         ((case T of None \<Rightarrow> id | Some ids \<Rightarrow> filter_related_in (links (tags d)) ids)
            (recipes d))))))"
  using assms
  by (auto simp: given_ids_def RecipeViewSet_get_queryset_def
      split: option.splits if_splits sum.splits)

text \<open>
  C4. A recipe listing whose query parameters parse returns exactly the recipes of the
  requesting owner that pass the filters, each once, in descending order of their ids.
  A tags filter keeps the recipes with at least one tag among the ids asked for, an
  ingredients filter likewise, and a recipe must pass both when both are given.
\<close>

theorem recipe_listing:
  assumes "given_ids tgs = Inr T" and "given_ids ings = Inr I"
  shows "\<exists>xs. RecipeViewSet_get_queryset d user tgs ings = Inr xs
     \<and> set xs = {r \<in> set (recipes d). recipe_user r = user
                  \<and> has_one_of T (links (tags d)) (recipe_id r)
                  \<and> has_one_of I (links (ingredients d)) (recipe_id r)}
     \<and> distinct xs
     \<and> sorted_wrt (\<lambda>r s. recipe_id s \<le> recipe_id r) xs"
proof -
  let ?q1 = "(case T of None \<Rightarrow> id | Some ids \<Rightarrow> filter_related_in (links (tags d)) ids) (recipes d)"
  let ?q2 = "(case I of None \<Rightarrow> id | Some ids \<Rightarrow> filter_related_in (links (ingredients d)) ids) ?q1"
  let ?xs = "remdups (order_by_desc recipe_id (filter (\<lambda>r. recipe_user r = user) ?q2))"
  have r: "RecipeViewSet_get_queryset d user tgs ings = Inr ?xs"
    by (rule get_queryset_given[OF assms])
  have s1: "set ?q1 = {r \<in> set (recipes d). has_one_of T (links (tags d)) (recipe_id r)}"
    by (cases T) (auto simp: set_filter_related_in list_ex_iff)
  have s2: "set ?q2 = {r \<in> set ?q1. has_one_of I (links (ingredients d)) (recipe_id r)}"
    by (cases I) (auto simp: set_filter_related_in list_ex_iff)
  have s: "set ?xs = {r \<in> set (recipes d). recipe_user r = user
                  \<and> has_one_of T (links (tags d)) (recipe_id r)
                  \<and> has_one_of I (links (ingredients d)) (recipe_id r)}"
    unfolding set_remdups set_order_by_desc set_filter s2 s1 by blast
  have d: "distinct ?xs" by simp
  have o: "sorted_wrt (\<lambda>r s. recipe_id s \<le> recipe_id r) ?xs"
    by (intro sorted_wrt_remdups order_by_desc_sorted)
  show ?thesis using r s d o by blast
qed

theorem recipe_listing_witness:
  "given_ids (Some ''1, 2'') = Inr (Some [1, 2]) \<and> given_ids None = Inr None
   \<and> (\<exists>xs. RecipeViewSet_get_queryset two_recipes_db 1 (Some ''1, 2'') None = Inr xs
     \<and> set xs = {r \<in> set (recipes two_recipes_db). recipe_user r = 1
                  \<and> has_one_of (Some [1, 2]) (links (tags two_recipes_db)) (recipe_id r)
                  \<and> has_one_of None (links (ingredients two_recipes_db)) (recipe_id r)}
     \<and> distinct xs
     \<and> sorted_wrt (\<lambda>r s. recipe_id s \<le> recipe_id r) xs)
   \<and> RecipeViewSet_get_queryset two_recipes_db 1 (Some ''1, 2'') None =
       Inr [example_recipe\<lparr>recipe_id := 2, title := ''Pancakes''\<rparr>, example_recipe]"
proof -
  have h1: "given_ids (Some ''1, 2'') = Inr (Some [1, 2])" by code_simp
  have h2: "given_ids None = Inr None" by code_simp
  have v: "RecipeViewSet_get_queryset two_recipes_db 1 (Some ''1, 2'') None =
       Inr [example_recipe\<lparr>recipe_id := 2, title := ''Pancakes''\<rparr>, example_recipe]"
    by code_simp
  show ?thesis
    using h1 h2 v recipe_listing[OF h1 h2, of two_recipes_db 1] by blast
qed

lemma set_filter_recipe_notnull:
  "set (filter_recipe_notnull lnks qs) = {a \<in> set qs. \<exists>rid. (rid, attr_id a) \<in> set lnks}"
proof -
  have "a \<in> set (filter_recipe_notnull lnks qs) \<longleftrightarrow>
          a \<in> set qs \<and> (\<exists>rid. (rid, attr_id a) \<in> set lnks)" for a
  proof
    assume "a \<in> set (filter_recipe_notnull lnks qs)"
    then obtain l where "a \<in> set qs" "l \<in> set lnks" "snd l = attr_id a"
      by (auto simp: filter_recipe_notnull_def)
    then show "a \<in> set qs \<and> (\<exists>rid. (rid, attr_id a) \<in> set lnks)"
      by (cases l) auto
  next
    assume a: "a \<in> set qs \<and> (\<exists>rid. (rid, attr_id a) \<in> set lnks)"
    then obtain rid where "(rid, attr_id a) \<in> set lnks" by blast
    then have "(rid, attr_id a) \<in> {l \<in> set lnks. snd l = attr_id a}" by simp
    then show "a \<in> set (filter_recipe_notnull lnks qs)"
      using a by (force simp: filter_recipe_notnull_def)
  qed
  then show ?thesis by blast
qed

lemma base_listing:
  assumes "query_int param 0 = Some n" and "links_owned rs st"
  shows "\<exists>xs. BaseRecipeAttrViewSet_get_queryset st user param = Inr xs
     \<and> set xs = {a \<in> set (attr_rows st). attr_user a = user
          \<and> (n \<noteq> 0 \<longrightarrow> (\<exists>r \<in> set rs. recipe_user r = user
                               \<and> (recipe_id r, attr_id a) \<in> set (links st)))}
     \<and> distinct xs
     \<and> sorted_wrt (\<lambda>a b. attr_name b \<le> attr_name a) xs"
proof -
  let ?q = "filter (\<lambda>a. attr_user a = user) (attr_rows st)"
  let ?q' = "if n \<noteq> 0 then filter_recipe_notnull (links st) ?q else ?q"
  let ?xs = "remdups (order_by_desc attr_name ?q')"
  have r: "BaseRecipeAttrViewSet_get_queryset st user param = Inr ?xs"
    using assms(1) by (simp add: BaseRecipeAttrViewSet_get_queryset_def Let_def)
  have own: "(\<exists>rid. (rid, attr_id a) \<in> set (links st)) \<longleftrightarrow>
             (\<exists>r \<in> set rs. recipe_user r = user \<and> (recipe_id r, attr_id a) \<in> set (links st))"
    if "a \<in> set (attr_rows st)" "attr_user a = user" for a
  proof
    assume "\<exists>rid. (rid, attr_id a) \<in> set (links st)"
    then obtain rid where l: "(rid, attr_id a) \<in> set (links st)" by blast
    with assms(2) that obtain r where "r \<in> set rs" "recipe_id r = rid" "recipe_user r = user"
      unfolding links_owned_def by fastforce
    with l show "\<exists>r \<in> set rs. recipe_user r = user \<and> (recipe_id r, attr_id a) \<in> set (links st)"
      by blast
  qed blast
  have s: "set ?xs = {a \<in> set (attr_rows st). attr_user a = user
          \<and> (n \<noteq> 0 \<longrightarrow> (\<exists>r \<in> set rs. recipe_user r = user
                               \<and> (recipe_id r, attr_id a) \<in> set (links st)))}"
    using own by (auto simp: set_order_by_desc set_filter_recipe_notnull)
  have d: "distinct ?xs" by simp
  have o: "sorted_wrt (\<lambda>a b. attr_name b \<le> attr_name a) ?xs"
    by (intro sorted_wrt_remdups order_by_desc_sorted)
  show ?thesis using r s d o by blast
qed

text \<open>
  C5. Listing tags or ingredients returns the attributes of the requesting owner, each
  once, in descending order of their names. When \<^verbatim>\<open>assigned_only\<close> is a number other
  than zero, the listing keeps the attributes that at least one recipe of that owner
  refers to; an attribute several recipes refer to is listed once. The source asks for
  a reference by any recipe; the associations stay within one owner in every database
  the views reach, so that recipe is one of the requesting owner.
\<close>

theorem attribute_listing:
  assumes "query_int param 0 = Some n"
    and "links_owned (recipes d) (tags d)" and "links_owned (recipes d) (ingredients d)"
  shows "(\<exists>xs. TagViewSet_get_queryset d user param = Inr xs
     \<and> set xs = {a \<in> set (attr_rows (tags d)). attr_user a = user
          \<and> (n \<noteq> 0 \<longrightarrow> (\<exists>r \<in> set (recipes d). recipe_user r = user
                               \<and> (recipe_id r, attr_id a) \<in> set (links (tags d))))}
     \<and> distinct xs
     \<and> sorted_wrt (\<lambda>a b. attr_name b \<le> attr_name a) xs)
   \<and> (\<exists>xs. IngredientViewset_get_queryset d user param = Inr xs
     \<and> set xs = {a \<in> set (attr_rows (ingredients d)). attr_user a = user
          \<and> (n \<noteq> 0 \<longrightarrow> (\<exists>r \<in> set (recipes d). recipe_user r = user
                               \<and> (recipe_id r, attr_id a) \<in> set (links (ingredients d))))}
     \<and> distinct xs
     \<and> sorted_wrt (\<lambda>a b. attr_name b \<le> attr_name a) xs)"
  unfolding TagViewSet_get_queryset_def IngredientViewset_get_queryset_def
  using base_listing[OF assms(1) assms(2), of user] base_listing[OF assms(1) assms(3), of user]
  by (rule conjI)

theorem attribute_listing_witness:
  "query_int (Some ''1'') 0 = Some 1
   \<and> links_owned (recipes two_recipes_db) (tags two_recipes_db)
   \<and> links_owned (recipes two_recipes_db) (ingredients two_recipes_db)
   \<and> (\<exists>xs. TagViewSet_get_queryset two_recipes_db 1 (Some ''1'') = Inr xs
     \<and> set xs = {a \<in> set (attr_rows (tags two_recipes_db)). attr_user a = 1
          \<and> ((1::int) \<noteq> 0 \<longrightarrow> (\<exists>r \<in> set (recipes two_recipes_db). recipe_user r = 1
                               \<and> (recipe_id r, attr_id a) \<in> set (links (tags two_recipes_db))))}
     \<and> distinct xs
     \<and> sorted_wrt (\<lambda>a b. attr_name b \<le> attr_name a) xs)
   \<and> TagViewSet_get_queryset two_recipes_db 1 (Some ''1'') =
       Inr [\<lparr>attr_id = 1, attr_user = 1, attr_name = ''Breakfast''\<rparr>]
   \<and> IngredientViewset_get_queryset two_recipes_db 1 (Some ''1'') =
       Inr [\<lparr>attr_id = 1, attr_user = 1, attr_name = ''Eggs''\<rparr>]
   \<and> TagViewSet_get_queryset two_recipes_db 1 None =
       Inr [\<lparr>attr_id = 2, attr_user = 1, attr_name = ''Lunch''\<rparr>,
            \<lparr>attr_id = 1, attr_user = 1, attr_name = ''Breakfast''\<rparr>]"
proof -
  have h1: "query_int (Some ''1'') 0 = Some 1" by code_simp
  have h2: "links_owned (recipes two_recipes_db) (tags two_recipes_db)" by code_simp
  have h3: "links_owned (recipes two_recipes_db) (ingredients two_recipes_db)" by code_simp
  have v1: "TagViewSet_get_queryset two_recipes_db 1 (Some ''1'') =
       Inr [\<lparr>attr_id = 1, attr_user = 1, attr_name = ''Breakfast''\<rparr>]" by code_simp
  have v2: "IngredientViewset_get_queryset two_recipes_db 1 (Some ''1'') =
       Inr [\<lparr>attr_id = 1, attr_user = 1, attr_name = ''Eggs''\<rparr>]" by code_simp
  have v3: "TagViewSet_get_queryset two_recipes_db 1 None =
       Inr [\<lparr>attr_id = 2, attr_user = 1, attr_name = ''Lunch''\<rparr>,
            \<lparr>attr_id = 1, attr_user = 1, attr_name = ''Breakfast''\<rparr>]" by code_simp
  show ?thesis
    using h1 h2 h3 v1 v2 v3 attribute_listing[OF h1 h2 h3, of 1] by blast
qed

section \<open>Properties of the recipe update\<close>

lemma got_fst:
  "fst (get_or_create_tags u es rcp d) =
     d\<lparr>tags := fst (reconcile u (map Some (spec_names es)) (recipe_id rcp) (tags d))\<rparr>"
  by (simp add: tags_refine kwargs_tag_shaped split: prod.splits)


lemma goi_fst:
  "fst (get_or_create_ingredients u es rcp d) =
     d\<lparr>ingredients := fst (reconcile u (map kwargs (takeWhile isinstance_dict es))
                              (recipe_id rcp) (ingredients d))\<rparr>"
  by (simp add: ingredients_refine split: prod.splits option.splits)





lemma setattr_id [simp]: "recipe_id (setattr r a v) = recipe_id r"
  by (cases v) simp_all

lemma setattrs_id [simp]: "recipe_id (setattrs r kvs) = recipe_id r"
  by (induction r kvs rule: setattrs.induct) simp_all

lemma save_stores [simp]: "tags (save inst d) = tags d" "ingredients (save inst d) = ingredients d"
  by (simp_all add: save_def)

lemma associated_clear [simp]: "associated (m2m_clear rid st) rid = []"
  by (simp add: associated_def m2m_clear_def filter_empty_conv)

lemma assoc_keys_clear [simp]: "assoc_keys (m2m_clear rid st) rid = {}"
  by (simp add: assoc_keys_def)








section \<open>Properties of get-or-create\<close>

lemma m2m_clear_rows [simp]: "attr_rows (m2m_clear rid st) = attr_rows st"
  by (simp add: m2m_clear_def)


lemma owned_named_clear [simp]: "owned_named v n (m2m_clear rid st) = owned_named v n st"
  by (simp add: owned_named_def)





text \<open>What an update leaves in the two attribute tables, whatever its outcome.\<close>

lemma update_stores_any:
  "(tags (fst (RecipeSerializer_update u inst vd d)) = tags d
    \<or> (\<exists>tgs. v_tags vd = Some tgs \<and> tags (fst (RecipeSerializer_update u inst vd d)) =
        fst (reconcile u (map Some (spec_names tgs)) (recipe_id inst)
               (m2m_clear (recipe_id inst) (tags d)))))
   \<and> (ingredients (fst (RecipeSerializer_update u inst vd d)) = ingredients d
    \<or> (\<exists>ings. v_ingredients vd = Some ings \<and> ingredients (fst (RecipeSerializer_update u inst vd d)) =
        fst (reconcile u (map kwargs (takeWhile isinstance_dict ings)) (recipe_id inst)
               (m2m_clear (recipe_id inst) (ingredients d)))))"
proof -
  let ?rid = "recipe_id inst"
  let ?i = "(case v_ingredients vd of None \<Rightarrow> (d, None)
            | Some ings \<Rightarrow> get_or_create_ingredients u ings inst
                  (d\<lparr>ingredients := m2m_clear ?rid (ingredients d)\<rparr>))"
  let ?t = "(case v_tags vd of None \<Rightarrow> (fst ?i, None)
            | Some tgs \<Rightarrow> get_or_create_tags u tgs inst
                  ((fst ?i)\<lparr>tags := m2m_clear ?rid (tags (fst ?i))\<rparr>))"
  have c: "fst (RecipeSerializer_update u inst vd d) =
       (if snd ?i \<noteq> None then fst ?i
        else if snd ?t \<noteq> None then fst ?t
        else save (setattrs inst (v_fields vd)) (fst ?t))"
    by (auto simp: RecipeSerializer_update_def Let_def split: prod.splits option.splits)
  have i: "tags (fst ?i) = tags d"
    "ingredients (fst ?i) = ingredients d
     \<or> (\<exists>ings. v_ingredients vd = Some ings \<and> ingredients (fst ?i) =
        fst (reconcile u (map kwargs (takeWhile isinstance_dict ings)) ?rid
               (m2m_clear ?rid (ingredients d))))"
    by (cases "v_ingredients vd"; simp add: goi_fst)+
  have t: "ingredients (fst ?t) = ingredients (fst ?i)"
    "tags (fst ?t) = tags d
     \<or> (\<exists>tgs. v_tags vd = Some tgs \<and> tags (fst ?t) =
        fst (reconcile u (map Some (spec_names tgs)) ?rid (m2m_clear ?rid (tags d))))"
    using i(1) by (cases "v_tags vd"; simp add: got_fst)+
  show ?thesis unfolding c using i t by auto
qed








section \<open>Properties of the order of the specs\<close>







text \<open>
  A dictionary without a name is no spec, and the ingredient loop shows why: it looks
  such an entry up by the owner alone, so what it finds depends on the entries before it.
\<close>

lemma nameless_entry_order_matters:
  "assoc_keys (ingredients (fst (get_or_create_ingredients 1 [Dict (Some ''Rice''), Dict None]
                                  example_recipe example_db))) 1 = {(1, ''Rice'')}
   \<and> assoc_keys (ingredients (fst (get_or_create_ingredients 1 [Dict None, Dict (Some ''Rice'')]
                                  example_recipe example_db))) 1 = {(1, []), (1, ''Rice'')}"
  by code_simp



section \<open>Properties of access across owners\<close>

lemma given_ids_good: "\<not> bad_tokens p \<Longrightarrow> \<exists>T. given_ids p = Inr T"
  by (auto simp: bad_tokens_def given_ids_def params_to_ints_def int_each_good
      split: option.splits)

lemma get_queryset_good:
  assumes "\<not> bad_tokens tgs" and "\<not> bad_tokens ings"
  shows "\<exists>xs. RecipeViewSet_get_queryset d user tgs ings = Inr xs
     \<and> set xs \<subseteq> {r \<in> set (recipes d). recipe_user r = user}"
proof -
  obtain T I where g: "given_ids tgs = Inr T" "given_ids ings = Inr I"
    using given_ids_good[OF assms(1)] given_ids_good[OF assms(2)] by blast
  let ?q1 = "(case T of None \<Rightarrow> id | Some ids \<Rightarrow> filter_related_in (links (tags d)) ids) (recipes d)"
  let ?q2 = "(case I of None \<Rightarrow> id | Some ids \<Rightarrow> filter_related_in (links (ingredients d)) ids) ?q1"
  have s1: "set ?q1 \<subseteq> set (recipes d)"
    by (cases T) (auto simp: set_filter_related_in)
  have s2: "set ?q2 \<subseteq> set ?q1"
    by (cases I) (auto simp: set_filter_related_in)
  show ?thesis
    unfolding get_queryset_given[OF g]
    using s1 s2 by (auto simp: set_order_by_desc)
qed

lemma get_object_foreign:
  assumes "set xs \<subseteq> {x \<in> set rows. owner x = user}"
    and "r \<in> set rows" and "owner r \<noteq> user" and "distinct (map pk_of rows)"
  shows "get_object pk_of (Inr xs) (pk_of r) = Inl Http404"
proof -
  have "x \<in> set xs \<Longrightarrow> pk_of x \<noteq> pk_of r" for x
  proof
    assume x: "x \<in> set xs" and e: "pk_of x = pk_of r"
    then have "x \<in> set rows" "owner x = user" using assms(1) by auto
    then have "x = r" using assms(2,4) e by (auto simp: distinct_map inj_on_def)
    then show False using \<open>owner x = user\<close> assms(3) by simp
  qed
  then have "filter (\<lambda>x. pk_of x = pk_of r) xs = []" by (simp add: filter_empty_conv)
  then show ?thesis by (simp add: get_object_def)
qed

lemma recipe_get_object_foreign:
  assumes "r \<in> set (recipes d)" and "recipe_user r \<noteq> user"
    and "distinct (map recipe_id (recipes d))"
  shows "get_object recipe_id (RecipeViewSet_get_queryset d user tgs ings) (recipe_id r) =
     Inl (if bad_tokens tgs \<or> bad_tokens ings then ValueError else Http404)"
proof (cases "bad_tokens tgs \<or> bad_tokens ings")
  case True
  then show ?thesis by (simp add: get_queryset_bad get_object_def)
next
  case False
  then obtain xs where xs: "RecipeViewSet_get_queryset d user tgs ings = Inr xs"
    "set xs \<subseteq> {r \<in> set (recipes d). recipe_user r = user}"
    using get_queryset_good[of tgs ings d user] by blast
  show ?thesis
    using False get_object_foreign[OF xs(2) assms] xs(1) by simp
qed

lemma attr_get_queryset_bad:
  "query_int param 0 = None \<Longrightarrow>
     BaseRecipeAttrViewSet_get_queryset st user param = Inl ValueError"
  by (simp add: BaseRecipeAttrViewSet_get_queryset_def)

lemma attr_get_queryset_good:
  assumes "query_int param 0 \<noteq> None"
  shows "\<exists>xs. BaseRecipeAttrViewSet_get_queryset st user param = Inr xs
         \<and> set xs \<subseteq> {a \<in> set (attr_rows st). attr_user a = user}"
proof -
  from assms obtain n where "query_int param 0 = Some n" by auto
  then show ?thesis
    by (auto simp: BaseRecipeAttrViewSet_get_queryset_def Let_def set_order_by_desc
        set_filter_recipe_notnull)
qed

lemma attr_get_object_foreign:
  assumes "a \<in> set (attr_rows st)" and "attr_user a \<noteq> user"
    and "distinct (map attr_id (attr_rows st))"
  shows "get_object attr_id (BaseRecipeAttrViewSet_get_queryset st user param) (attr_id a) =
     Inl (if query_int param 0 = None then ValueError else Http404)"
proof (cases "query_int param 0 = None")
  case True
  then show ?thesis by (simp add: attr_get_queryset_bad get_object_def)
next
  case False
  then obtain xs where xs: "BaseRecipeAttrViewSet_get_queryset st user param = Inr xs"
    "set xs \<subseteq> {a \<in> set (attr_rows st). attr_user a = user}"
    using attr_get_queryset_good[of param st user] by blast
  show ?thesis
    using False get_object_foreign[OF xs(2) assms] xs(1) by simp
qed

text \<open>
  C7, as the source has it. A detail, update or delete request for a recipe of another
  user, and an update or delete request for a tag or an ingredient of another user,
  fails and leaves the database as it was. The failure is \<open>Http404\<close>, status 404, when
  the query string of the request parses; the views read the filter parameters for every
  action, so with a \<^verbatim>\<open>tags\<close> or \<^verbatim>\<open>ingredients\<close> parameter that has a piece that is no
  integer, or an \<^verbatim>\<open>assigned_only\<close> that is no integer, the failure is the
  \<open>ValueError\<close> of \<^verbatim>\<open>int\<close>, status 500. The viewset of tags and ingredients has no
  retrieve action.
\<close>

theorem cross_owner_access_fails_unchanged:
  "(r \<in> set (recipes d) \<and> recipe_user r \<noteq> user \<and> distinct (map recipe_id (recipes d)) \<longrightarrow>
      RecipeViewSet_retrieve d user tgs ings (recipe_id r)
        = (d, Inl (if bad_tokens tgs \<or> bad_tokens ings then ValueError else Http404))
      \<and> RecipeViewSet_update d user tgs ings (recipe_id r) partial data
        = (d, Inl (if bad_tokens tgs \<or> bad_tokens ings then ValueError else Http404))
      \<and> RecipeViewSet_destroy d user tgs ings (recipe_id r)
        = (d, Inl (if bad_tokens tgs \<or> bad_tokens ings then ValueError else Http404)))
   \<and> (a \<in> set (attr_rows (tags d)) \<and> attr_user a \<noteq> user
       \<and> distinct (map attr_id (attr_rows (tags d))) \<longrightarrow>
      TagViewSet_update d user param (attr_id a) partial new_name
        = (d, Inl (if query_int param 0 = None then ValueError else Http404))
      \<and> TagViewSet_destroy d user param (attr_id a)
        = (d, Inl (if query_int param 0 = None then ValueError else Http404)))
   \<and> (b \<in> set (attr_rows (ingredients d)) \<and> attr_user b \<noteq> user
       \<and> distinct (map attr_id (attr_rows (ingredients d))) \<longrightarrow>
      IngredientViewset_update d user param (attr_id b) partial new_name
        = (d, Inl (if query_int param 0 = None then ValueError else Http404))
      \<and> IngredientViewset_destroy d user param (attr_id b)
        = (d, Inl (if query_int param 0 = None then ValueError else Http404)))
   \<and> status_code Http404 = 404 \<and> status_code ValueError = 500"
proof -
  have p1: "r \<in> set (recipes d) \<and> recipe_user r \<noteq> user \<and> distinct (map recipe_id (recipes d)) \<longrightarrow>
      RecipeViewSet_retrieve d user tgs ings (recipe_id r)
        = (d, Inl (if bad_tokens tgs \<or> bad_tokens ings then ValueError else Http404))
      \<and> RecipeViewSet_update d user tgs ings (recipe_id r) partial data
        = (d, Inl (if bad_tokens tgs \<or> bad_tokens ings then ValueError else Http404))
      \<and> RecipeViewSet_destroy d user tgs ings (recipe_id r)
        = (d, Inl (if bad_tokens tgs \<or> bad_tokens ings then ValueError else Http404))"
    using recipe_get_object_foreign[of r d user tgs ings]
    by (simp add: RecipeViewSet_retrieve_def RecipeViewSet_update_def RecipeViewSet_destroy_def)
  have p2: "a \<in> set (attr_rows (tags d)) \<and> attr_user a \<noteq> user
       \<and> distinct (map attr_id (attr_rows (tags d))) \<longrightarrow>
      TagViewSet_update d user param (attr_id a) partial new_name
        = (d, Inl (if query_int param 0 = None then ValueError else Http404))
      \<and> TagViewSet_destroy d user param (attr_id a)
        = (d, Inl (if query_int param 0 = None then ValueError else Http404))"
    using attr_get_object_foreign[of a "tags d" user param]
    by (simp add: TagViewSet_update_def TagViewSet_destroy_def
        BaseRecipeAttrViewSet_update_def BaseRecipeAttrViewSet_destroy_def)
  have p3: "b \<in> set (attr_rows (ingredients d)) \<and> attr_user b \<noteq> user
       \<and> distinct (map attr_id (attr_rows (ingredients d))) \<longrightarrow>
      IngredientViewset_update d user param (attr_id b) partial new_name
        = (d, Inl (if query_int param 0 = None then ValueError else Http404))
      \<and> IngredientViewset_destroy d user param (attr_id b)
        = (d, Inl (if query_int param 0 = None then ValueError else Http404))"
    using attr_get_object_foreign[of b "ingredients d" user param]
    by (simp add: IngredientViewset_update_def IngredientViewset_destroy_def
        BaseRecipeAttrViewSet_update_def BaseRecipeAttrViewSet_destroy_def)
  show ?thesis using p1 p2 p3 by simp
qed

theorem cross_owner_access_fails_unchanged_witness:
  "example_recipe\<lparr>recipe_id := 2, recipe_user := 2\<rparr> \<in> set (recipes foreign_db)
   \<and> recipe_user (example_recipe\<lparr>recipe_id := 2, recipe_user := 2\<rparr>) \<noteq> 1
   \<and> distinct (map recipe_id (recipes foreign_db))
   \<and> \<not> (bad_tokens (Some ''1'') \<or> bad_tokens None)
   \<and> RecipeViewSet_retrieve foreign_db 1 (Some ''1'') None 2 = (foreign_db, Inl Http404)
   \<and> RecipeViewSet_update foreign_db 1 (Some ''1'') None 2 True example_data
       = (foreign_db, Inl Http404)
   \<and> RecipeViewSet_destroy foreign_db 1 (Some ''1'') None 2 = (foreign_db, Inl Http404)
   \<and> \<lparr>attr_id = 2, attr_user = 2, attr_name = ''Vegan''\<rparr> \<in> set (attr_rows (tags foreign_db))
   \<and> distinct (map attr_id (attr_rows (tags foreign_db)))
   \<and> query_int None 0 \<noteq> None
   \<and> TagViewSet_update foreign_db 1 None 2 True (Some ''Mine'') = (foreign_db, Inl Http404)
   \<and> TagViewSet_destroy foreign_db 1 None 2 = (foreign_db, Inl Http404)
   \<and> \<lparr>attr_id = 1, attr_user = 2, attr_name = ''Salt''\<rparr>
        \<in> set (attr_rows (ingredients foreign_db))
   \<and> distinct (map attr_id (attr_rows (ingredients foreign_db)))
   \<and> IngredientViewset_update foreign_db 1 None 1 True (Some ''Mine'') = (foreign_db, Inl Http404)
   \<and> IngredientViewset_destroy foreign_db 1 None 1 = (foreign_db, Inl Http404)
   \<and> query_int (Some [CHR 0x1F, CHR ''1'']) 0 = None
   \<and> TagViewSet_destroy foreign_db 1 (Some [CHR 0x1F, CHR ''1'']) 2 = (foreign_db, Inl ValueError)"
proof -
  have r: "example_recipe\<lparr>recipe_id := 2, recipe_user := 2\<rparr> \<in> set (recipes foreign_db)"
    "recipe_user (example_recipe\<lparr>recipe_id := 2, recipe_user := 2\<rparr>) \<noteq> 1"
    "recipe_id (example_recipe\<lparr>recipe_id := 2, recipe_user := 2\<rparr>) = 2"
    "distinct (map recipe_id (recipes foreign_db))"
    by (simp_all add: foreign_db_def example_recipe_def)
  have q: "\<not> (bad_tokens (Some ''1'') \<or> bad_tokens None)" by code_simp
  have a: "\<lparr>attr_id = 2, attr_user = 2, attr_name = ''Vegan''\<rparr> \<in> set (attr_rows (tags foreign_db))"
    "distinct (map attr_id (attr_rows (tags foreign_db)))"
    by (simp_all add: foreign_db_def)
  have b: "\<lparr>attr_id = 1, attr_user = 2, attr_name = ''Salt''\<rparr>
        \<in> set (attr_rows (ingredients foreign_db))"
    "distinct (map attr_id (attr_rows (ingredients foreign_db)))"
    by (simp_all add: foreign_db_def)
  have p: "query_int None 0 \<noteq> None" by (simp add: query_int_def)
  note t = cross_owner_access_fails_unchanged[of
      "example_recipe\<lparr>recipe_id := 2, recipe_user := 2\<rparr>" foreign_db 1 "Some ''1''" None
      True example_data "\<lparr>attr_id = 2, attr_user = 2, attr_name = ''Vegan''\<rparr>" None
      "Some ''Mine''"
      "\<lparr>attr_id = 1, attr_user = 2, attr_name = ''Salt''\<rparr>"]
  have p2: "query_int (Some [CHR 0x1F, CHR ''1'']) 0 = None" by code_simp
  note t2 = cross_owner_access_fails_unchanged[of
      "example_recipe\<lparr>recipe_id := 2, recipe_user := 2\<rparr>" foreign_db 1 "Some ''1''" None
      True example_data "\<lparr>attr_id = 2, attr_user = 2, attr_name = ''Vegan''\<rparr>"
      "Some [CHR 0x1F, CHR ''1'']" "Some ''Mine''"
      "\<lparr>attr_id = 1, attr_user = 2, attr_name = ''Salt''\<rparr>"]
  have v: "TagViewSet_destroy foreign_db 1 (Some [CHR 0x1F, CHR ''1'']) 2
             = (foreign_db, Inl ValueError)"
    using a p2 t2 by simp
  show ?thesis using r q a b p t p2 v by simp
qed

text \<open>
  The claim C7 as the specification states it, not found for every such request, fails
  for user 1 deleting recipe 2 of user 2 with the query string \<^verbatim>\<open>tags=abc\<close>: the
  recipe stays, but the answer is the server error of the \<open>ValueError\<close>.
\<close>

theorem cross_owner_delete_not_404:
  "example_recipe\<lparr>recipe_id := 2, recipe_user := 2\<rparr> \<in> set (recipes foreign_db)
   \<and> RecipeViewSet_destroy foreign_db 1 (Some ''abc'') None 2 = (foreign_db, Inl ValueError)
   \<and> response_status (snd (RecipeViewSet_destroy foreign_db 1 (Some ''abc'') None 2)) \<noteq> 404"
  by code_simp

section \<open>Properties of the owner of a recipe\<close>

lemma setattr_user: "a \<noteq> ''user'' \<Longrightarrow> recipe_user (setattr r a v) = recipe_user r"
  by (cases v) simp_all

lemma setattrs_user:
  "''user'' \<notin> fst ` set kvs \<Longrightarrow> recipe_user (setattrs r kvs) = recipe_user r"
  by (induction r kvs rule: setattrs.induct) (auto simp: setattr_user)

lemma map_filter_keys:
  "fst ` set (List.map_filter (\<lambda>f. map_option (Pair f) (m f)) fs) \<subseteq> set fs"
  by (auto simp: List.map_filter_def)

lemma to_internal_value_keys:
  assumes "to_internal_value partial flds data = Inr vd"
  shows "fst ` set (v_fields vd) \<subseteq> set flds"
proof -
  let ?fs = "filter (\<lambda>f. f \<notin> set read_only_fields \<and> f \<noteq> ''tags'' \<and> f \<noteq> ''ingredients'') flds"
  have "v_fields vd = List.map_filter (\<lambda>f. map_option (Pair f) (map_of (d_fields data) f)) ?fs"
    using assms by (auto simp: to_internal_value_def split: sum.splits)
  then show ?thesis
    using map_filter_keys[of "map_of (d_fields data)" ?fs] by auto
qed

lemma detail_fields_no_user: "''user'' \<notin> set RecipeDetailSerializer_fields"
  by (simp add: RecipeDetailSerializer_fields_def RecipeSerializer_fields_def)

lemma map_of_filter_other:
  "k \<noteq> k' \<Longrightarrow> map_of (filter (\<lambda>kv. fst kv \<noteq> k') kvs) k = map_of kvs k"
  by (induction kvs) auto

lemma map_filter_cong_set:
  "(\<And>x. x \<in> set xs \<Longrightarrow> g x = h x) \<Longrightarrow> List.map_filter g xs = List.map_filter h xs"
  by (simp add: List.map_filter_def cong: map_cong filter_cong)

lemma to_internal_value_drops:
  assumes "k \<notin> set flds"
  shows "to_internal_value partial flds
           (data\<lparr>d_fields := filter (\<lambda>kv. fst kv \<noteq> k) (d_fields data)\<rparr>)
         = to_internal_value partial flds data"
proof -
  let ?fs = "filter (\<lambda>f. f \<notin> set read_only_fields \<and> f \<noteq> ''tags'' \<and> f \<noteq> ''ingredients'') flds"
  have "List.map_filter (\<lambda>f. map_option (Pair f)
            (map_of (filter (\<lambda>kv. fst kv \<noteq> k) (d_fields data)) f)) ?fs
        = List.map_filter (\<lambda>f. map_option (Pair f) (map_of (d_fields data) f)) ?fs"
  proof (rule map_filter_cong_set)
    fix f assume "f \<in> set ?fs"
    then have "f \<noteq> k" using assms by auto
    then show "map_option (Pair f) (map_of (filter (\<lambda>kv. fst kv \<noteq> k) (d_fields data)) f)
             = map_option (Pair f) (map_of (d_fields data) f)"
      by (simp add: map_of_filter_other)
  qed
  then show ?thesis by (simp add: to_internal_value_def split: sum.splits)
qed

lemma to_internal_value_drops_user:
  "to_internal_value partial RecipeDetailSerializer_fields
      (data\<lparr>d_fields := filter (\<lambda>kv. fst kv \<noteq> ''user'') (d_fields data)\<rparr>)
   = to_internal_value partial RecipeDetailSerializer_fields data"
  by (rule to_internal_value_drops[OF detail_fields_no_user])

lemma get_object_Inr:
  "get_object pk_of q pk = Inr x \<Longrightarrow> \<exists>xs. q = Inr xs \<and> x \<in> set xs \<and> pk_of x = pk"
proof -
  assume a: "get_object pk_of q pk = Inr x"
  then obtain xs where q: "q = Inr xs" by (cases q) (auto simp: get_object_def)
  have "filter (\<lambda>y. pk_of y = pk) xs = [x]"
    using a q by (auto simp: get_object_def split: list.splits)
  then have "x \<in> set (filter (\<lambda>y. pk_of y = pk) xs)" by simp
  then show ?thesis using q by auto
qed

lemma get_queryset_subset:
  "RecipeViewSet_get_queryset d user tgs ings = Inr xs \<Longrightarrow>
     set xs \<subseteq> {r \<in> set (recipes d). recipe_user r = user}"
  using get_queryset_good[of tgs ings d user] get_queryset_bad[of tgs ings d user]
  by (cases "bad_tokens tgs \<or> bad_tokens ings") auto

lemma got_recipes [simp]: "recipes (fst (get_or_create_tags u es rcp d)) = recipes d"
  by (simp add: got_fst)

lemma goi_recipes [simp]: "recipes (fst (get_or_create_ingredients u es rcp d)) = recipes d"
  by (simp add: goi_fst)

lemma update_recipes:
  "recipes (fst (RecipeSerializer_update u inst vd d)) = recipes d
   \<or> recipes (fst (RecipeSerializer_update u inst vd d)) =
        recipes (save (setattrs inst (v_fields vd)) d)"
proof -
  let ?rid = "recipe_id inst"
  let ?i = "(case v_ingredients vd of None \<Rightarrow> (d, None)
            | Some ings \<Rightarrow> get_or_create_ingredients u ings inst
                  (d\<lparr>ingredients := m2m_clear ?rid (ingredients d)\<rparr>))"
  let ?t = "(case v_tags vd of None \<Rightarrow> (fst ?i, None)
            | Some tgs \<Rightarrow> get_or_create_tags u tgs inst
                  ((fst ?i)\<lparr>tags := m2m_clear ?rid (tags (fst ?i))\<rparr>))"
  have c: "fst (RecipeSerializer_update u inst vd d) =
       (if snd ?i \<noteq> None then fst ?i
        else if snd ?t \<noteq> None then fst ?t
        else save (setattrs inst (v_fields vd)) (fst ?t))"
    by (auto simp: RecipeSerializer_update_def Let_def split: prod.splits option.splits)
  have i: "recipes (fst ?i) = recipes d" by (cases "v_ingredients vd") simp_all
  have t: "recipes (fst ?t) = recipes d" using i by (cases "v_tags vd") simp_all
  have s: "recipes (save r (fst ?t)) = recipes (save r d)" for r
    using t by (simp add: save_def)
  show ?thesis unfolding c using i t s by auto
qed

lemma save_keeps_owner:
  assumes "inst \<in> set (recipes d)" and "distinct (map recipe_id (recipes d))"
    and "recipe_id inst' = recipe_id inst" and "recipe_user inst' = recipe_user inst"
  shows "map (\<lambda>r. (recipe_id r, recipe_user r)) (recipes (save inst' d)) =
         map (\<lambda>r. (recipe_id r, recipe_user r)) (recipes d)"
proof -
  have same: "r = inst" if "r \<in> set (recipes d)" "recipe_id r = recipe_id inst" for r
    using assms(1,2) that by (auto simp: distinct_map inj_on_def)
  have "recipe_id inst' \<in> recipe_id ` set (recipes d)" using assms(1,3) by force
  then have "recipes (save inst' d) =
      map (\<lambda>r. if recipe_id r = recipe_id inst' then inst' else r) (recipes d)"
    by (simp add: save_def)
  then show ?thesis using same assms(3,4) by (auto simp: map_eq_conv)
qed

text \<open>
  The update of the serializer assigns whatever its validated data hold: with a user
  among them it would change the owner. The owner is kept because the serializer does
  not declare the field.
\<close>

lemma update_would_assign_user:
  "snd (RecipeSerializer_update 1 example_recipe
          \<lparr>v_tags = None, v_ingredients = None, v_fields = [(''user'', VInt 2)]\<rparr> example_db)
     = Inr (example_recipe\<lparr>recipe_user := 2\<rparr>)"
  by code_simp

text \<open>
  C3. An update request leaves the owner of every recipe as it was, whatever the request
  submits and whatever its outcome; a submitted \<^verbatim>\<open>user\<close> is dropped before the
  serializer's update runs, so the request does exactly what it does without that key.
  The primary key of the recipe table is unique.
\<close>

theorem update_keeps_owner:
  assumes "distinct (map recipe_id (recipes d))"
  shows "map (\<lambda>r. (recipe_id r, recipe_user r))
           (recipes (fst (RecipeViewSet_update d user tgs ings pk partial data)))
         = map (\<lambda>r. (recipe_id r, recipe_user r)) (recipes d)
     \<and> RecipeViewSet_update d user tgs ings pk partial data
         = RecipeViewSet_update d user tgs ings pk partial
             (data\<lparr>d_fields := filter (\<lambda>kv. fst kv \<noteq> ''user'') (d_fields data)\<rparr>)"
proof -
  have a: "map (\<lambda>r. (recipe_id r, recipe_user r))
           (recipes (fst (RecipeViewSet_update d user tgs ings pk partial data)))
         = map (\<lambda>r. (recipe_id r, recipe_user r)) (recipes d)"
  proof (cases "get_object recipe_id (RecipeViewSet_get_queryset d user tgs ings) pk")
    case (Inl e)
    then show ?thesis by (simp add: RecipeViewSet_update_def)
  next
    case (Inr inst)
    show ?thesis
    proof (cases "to_internal_value partial RecipeDetailSerializer_fields data")
      case (Inl e)
      then show ?thesis using Inr by (simp add: RecipeViewSet_update_def)
    next
      case v: (Inr vd)
      from get_object_Inr[OF Inr] obtain xs where
        xs: "RecipeViewSet_get_queryset d user tgs ings = Inr xs" "inst \<in> set xs" by blast
      then have inst: "inst \<in> set (recipes d)" using get_queryset_subset[OF xs(1)] by auto
      have nu: "''user'' \<notin> fst ` set (v_fields vd)"
        using to_internal_value_keys[OF v] detail_fields_no_user by blast
      have k: "map (\<lambda>r. (recipe_id r, recipe_user r)) (recipes (save (setattrs inst (v_fields vd)) d))
           = map (\<lambda>r. (recipe_id r, recipe_user r)) (recipes d)"
        by (rule save_keeps_owner[OF inst assms]) (simp_all add: setattrs_user[OF nu])
      show ?thesis
        using Inr v update_recipes[of user inst vd d] k
        by (auto simp: RecipeViewSet_update_def)
    qed
  qed
  have b: "RecipeViewSet_update d user tgs ings pk partial data
         = RecipeViewSet_update d user tgs ings pk partial
             (data\<lparr>d_fields := filter (\<lambda>kv. fst kv \<noteq> ''user'') (d_fields data)\<rparr>)"
    unfolding RecipeViewSet_update_def to_internal_value_drops_user ..
  show ?thesis using a b by simp
qed

theorem update_keeps_owner_witness:
  "distinct (map recipe_id (recipes foreign_db))
   \<and> map (\<lambda>r. (recipe_id r, recipe_user r))
        (recipes (fst (RecipeViewSet_update foreign_db 1 None None 1 True example_data)))
       = [(1, 1), (2, 2)]
   \<and> snd (RecipeViewSet_update foreign_db 1 None None 1 True example_data)
       = Inr (example_recipe\<lparr>title := ''Idli''\<rparr>)"
proof -
  have h: "distinct (map recipe_id (recipes foreign_db))"
    by (simp add: foreign_db_def example_recipe_def)
  have o: "map (\<lambda>r. (recipe_id r, recipe_user r)) (recipes foreign_db) = [(1, 1), (2, 2)]"
    by (simp add: foreign_db_def example_recipe_def)
  have v: "snd (RecipeViewSet_update foreign_db 1 None None 1 True example_data)
       = Inr (example_recipe\<lparr>title := ''Idli''\<rparr>)" by code_simp
  note t = update_keeps_owner[OF h, of 1 None None 1 True example_data]
  have k: "map (\<lambda>r. (recipe_id r, recipe_user r))
        (recipes (fst (RecipeViewSet_update foreign_db 1 None None 1 True example_data)))
       = [(1, 1), (2, 2)]"
    by (rule trans[OF conjunct1[OF t] o])
  show ?thesis using h k v by blast
qed

section \<open>What validation lets through\<close>

text \<open>
  The lists the views hand to the two loops hold dictionaries only, and after a full
  validation (create, \<^verbatim>\<open>PUT\<close>) only dictionaries with a name: a list with a value
  that is not a dictionary is refused with status 400 before the serializer's create or
  update runs, so the \<open>TypeError\<close> of the ingredient loop is not met through the views.
  A dictionary without a name passes the validation of a partial update.
\<close>

lemma run_validation_shape:
  "run_validation partial e = Inr v \<Longrightarrow> isinstance_dict v \<and> (\<not> partial \<longrightarrow> tag_shaped v)"
  by (cases "(partial, e)" rule: run_validation.cases) (auto simp: tag_shaped_def split: if_splits)

lemma validated_entries_are_dicts:
  "run_child_validation partial es = Inr vs \<Longrightarrow>
     list_all isinstance_dict vs \<and> (\<not> partial \<longrightarrow> list_all tag_shaped vs)"
proof (induction es arbitrary: vs)
  case Nil
  then show ?case by simp
next
  case (Cons e es)
  from Cons.prems obtain v vs' where v: "run_validation partial e = Inr v"
    "run_child_validation partial es = Inr vs'" "vs = v # vs'"
    by (auto split: sum.splits)
  show ?case
    using Cons.IH[OF v(2)] run_validation_shape[OF v(1)] v(3) by simp
qed

lemma non_dictionary_is_refused:
  "NotDict \<in> set es \<Longrightarrow> run_child_validation partial es = Inl ValidationError"
proof (induction es)
  case Nil
  then show ?case by simp
next
  case (Cons e es)
  then show ?case
    by (cases "(partial, e)" rule: run_validation.cases) (auto split: sum.splits if_splits)
qed

lemma view_refuses_blank_name:
  "RecipeViewSet_update example_db 1 None None 1 True
      \<lparr>d_tags = Some [Dict (Some '' '')], d_ingredients = None, d_fields = []\<rparr>
     = (example_db, Inl ValidationError)
   \<and> RecipeViewSet_create example_db 1
      \<lparr>d_tags = None, d_ingredients = Some [Dict None], d_fields = []\<rparr>
     = (example_db, Inl ValidationError)
   \<and> status_code ValidationError = 400"
  by code_simp

section \<open>What the views keep\<close>

text \<open>
  The properties above assume unique primary keys, sequences ahead of the ids, and
  for the attribute listing that associations stay within one owner. The database
  keeps the first two; the views keep the third, since a recipe is only ever written
  by its owner and with that owner's attributes. All of it holds in every database the
  views reach.
\<close>

lemma links_owned_mono:
  assumes "links_owned rs st"
    and "(\<lambda>r. (recipe_id r, recipe_user r)) ` set rs \<subseteq> (\<lambda>r. (recipe_id r, recipe_user r)) ` set rs'"
  shows "links_owned rs' st"
  unfolding links_owned_def
proof (intro ballI impI)
  fix l a assume la: "l \<in> set (links st)" "a \<in> set (attr_rows st)" "attr_id a = snd l"
  with assms(1) obtain r where r: "r \<in> set rs" "recipe_id r = fst l" "recipe_user r = attr_user a"
    unfolding links_owned_def by blast
  then have "(recipe_id r, recipe_user r) \<in> (\<lambda>r. (recipe_id r, recipe_user r)) ` set rs'"
    using assms(2) by blast
  then obtain r' where "r' \<in> set rs'" "recipe_id r' = recipe_id r" "recipe_user r' = recipe_user r"
    by auto
  then show "\<exists>r\<in>set rs'. recipe_id r = fst l \<and> recipe_user r = attr_user a"
    using r by auto
qed

lemma links_owned_ogc:
  assumes "wf_store st" and "links_owned rs st"
  shows "links_owned rs (fst (objects_get_or_create u kw st))"
proof (cases u kw "attr_rows st" rule: lookup_cases)
  case none
  have fresh: "(x, next_id st) \<notin> set (links st)" for x
    using assms(1) by (auto simp: wf_store_def list_all_iff)
  show ?thesis
    using none assms(2)
    by (auto simp: ogc_none links_owned_def new_attr_def fresh)
next
  case (one a)
  then show ?thesis using assms(2) by (simp add: ogc_one)
next
  case many
  then show ?thesis using assms(2) by (simp add: ogc_many)
qed

lemma links_owned_add:
  assumes "wf_store st" and "links_owned rs st" and "obj \<in> set (attr_rows st)"
    and "\<exists>r \<in> set rs. recipe_id r = rid \<and> recipe_user r = attr_user obj"
  shows "links_owned rs (m2m_add rid obj st)"
  unfolding links_owned_def
proof (intro ballI impI)
  fix l a
  assume la: "l \<in> set (links (m2m_add rid obj st))" "a \<in> set (attr_rows (m2m_add rid obj st))"
    "attr_id a = snd l"
  show "\<exists>r\<in>set rs. recipe_id r = fst l \<and> recipe_user r = attr_user a"
  proof (cases "l \<in> set (links st)")
    case True
    then show ?thesis using assms(2) la unfolding links_owned_def by simp
  next
    case False
    then have l: "l = (rid, attr_id obj)" using la(1) by simp
    have "a = obj"
      using assms(1,3) la(2,3) l by (auto simp: wf_store_def distinct_map inj_on_def)
    then show ?thesis using assms(4) l by simp
  qed
qed

lemma links_owned_reconcile:
  assumes "wf_store st" and "links_owned rs st"
    and "\<exists>r \<in> set rs. recipe_id r = rid \<and> recipe_user r = u"
  shows "links_owned rs (fst (reconcile u kws rid st))"
  using assms(1,2)
proof (induction kws arbitrary: st)
  case Nil
  then show ?case by simp
next
  case (Cons kw kws)
  obtain st1 res where o: "objects_get_or_create u kw st = (st1, res)"
    by (cases "objects_get_or_create u kw st")
  have wf1: "wf_store st1" using wf_ogc[OF Cons.prems(1), of u kw] o by simp
  have lo1: "links_owned rs st1" using links_owned_ogc[OF Cons.prems, of u kw] o by simp
  show ?case
  proof (cases res)
    case (Inl e)
    then show ?thesis using o lo1 by simp
  next
    case (Inr obj)
    have obj: "obj \<in> set (attr_rows st1)" "attr_user obj = u"
      using ogc_obj[OF o[unfolded Inr]] by simp_all
    have wf2: "wf_store (m2m_add rid obj st1)" by (rule wf_m2m_add[OF wf1 obj(1)])
    have lo2: "links_owned rs (m2m_add rid obj st1)"
      using links_owned_add[OF wf1 lo1 obj(1)] assms(3) obj(2) by simp
    from Cons.IH[OF wf2 lo2] show ?thesis using o Inr by simp
  qed
qed

lemma links_owned_clear: "links_owned rs st \<Longrightarrow> links_owned rs (m2m_clear rid st)"
  by (auto simp: links_owned_def m2m_clear_def)

lemma links_owned_delete_recipe:
  assumes "links_owned rs st"
  shows "links_owned (filter (\<lambda>r. recipe_id r \<noteq> rid) rs) (m2m_clear rid st)"
  unfolding links_owned_def
proof (intro ballI impI)
  fix l a
  assume la: "l \<in> set (links (m2m_clear rid st))" "a \<in> set (attr_rows (m2m_clear rid st))"
    "attr_id a = snd l"
  then have l: "l \<in> set (links st)" "fst l \<noteq> rid" "a \<in> set (attr_rows st)"
    by (auto simp: m2m_clear_def)
  with assms la(3) obtain r where "r \<in> set rs" "recipe_id r = fst l" "recipe_user r = attr_user a"
    unfolding links_owned_def by blast
  then show "\<exists>r\<in>set (filter (\<lambda>r. recipe_id r \<noteq> rid) rs).
               recipe_id r = fst l \<and> recipe_user r = attr_user a"
    using l(2) by auto
qed

lemma consistentI:
  assumes "distinct (map recipe_id (recipes d))"
    and "list_all (\<lambda>r. recipe_id r < recipe_seq d) (recipes d)"
    and "wf_store (tags d)" and "wf_store (ingredients d)"
    and "links_owned (recipes d) (tags d)" and "links_owned (recipes d) (ingredients d)"
  shows "consistent d"
  using assms by (simp add: consistent_def)

lemma consistent_empty: "consistent empty_db"
  by (simp add: consistent_def empty_db_def wf_store_def links_owned_def)

lemma setattrs_user_first:
  "''user'' \<notin> fst ` set kvs \<Longrightarrow>
     recipe_user (setattrs r ((''user'', VInt u) # kvs)) = u"
  by (simp add: setattrs_user)

lemma roc_with_user:
  assumes "''user'' \<notin> fst ` set kvs"
  shows "\<exists>rcp. Recipe_objects_create ((''user'', VInt u) # kvs) d =
           (d\<lparr>recipes := recipes d @ [rcp], recipe_seq := recipe_seq d + 1\<rparr>, Inr rcp)
         \<and> recipe_id rcp = recipe_seq d \<and> recipe_user rcp = u"
  using setattrs_user_first[OF assms, of _ u]
  by (simp add: Recipe_objects_create_def Let_def del: setattrs.simps)

lemma view_create_form:
  assumes v: "to_internal_value False RecipeDetailSerializer_fields data = Inr vd"
  shows "\<exists>rcp kt ki.
       recipes (fst (RecipeViewSet_create d user data)) = recipes d @ [rcp]
     \<and> recipe_seq (fst (RecipeViewSet_create d user data)) = recipe_seq d + 1
     \<and> recipe_id rcp = recipe_seq d \<and> recipe_user rcp = user
     \<and> tags (fst (RecipeViewSet_create d user data))
          = fst (reconcile user kt (recipe_seq d) (tags d))
     \<and> ingredients (fst (RecipeViewSet_create d user data))
          = fst (reconcile user ki (recipe_seq d) (ingredients d))"
proof -
  let ?vd = vd
  have nu: "''user'' \<notin> fst ` set (v_fields ?vd)"
    using to_internal_value_keys[OF v] detail_fields_no_user by blast
  from roc_with_user[OF nu, of user d] obtain rcp where
    r: "Recipe_objects_create ((''user'', VInt user) # v_fields ?vd) d =
           (d\<lparr>recipes := recipes d @ [rcp], recipe_seq := recipe_seq d + 1\<rparr>, Inr rcp)"
       "recipe_id rcp = recipe_seq d" "recipe_user rcp = user" by blast
  let ?d1 = "d\<lparr>recipes := recipes d @ [rcp], recipe_seq := recipe_seq d + 1\<rparr>"
  let ?t = "get_or_create_tags user (pop_list (v_tags ?vd) []) rcp ?d1"
  let ?i = "get_or_create_ingredients user (pop_list (v_ingredients ?vd) []) rcp (fst ?t)"
  let ?kt = "map Some (spec_names (pop_list (v_tags ?vd) []))"
  let ?ki = "map kwargs (takeWhile isinstance_dict (pop_list (v_ingredients ?vd) []))"
  have c: "fst (RecipeViewSet_create d user data) = fst ?i
           \<or> fst (RecipeViewSet_create d user data) = fst ?t"
    using r(1) v
    by (auto simp: RecipeViewSet_create_def RecipeSerializer_create_def Let_def
        split: prod.splits option.splits)
  have ft: "fst ?t = ?d1\<lparr>tags := fst (reconcile user ?kt (recipe_seq d) (tags d))\<rparr>"
    using r(2) by (simp add: got_fst)
  have fi: "fst ?i = (fst ?t)\<lparr>ingredients := fst (reconcile user ?ki (recipe_seq d) (ingredients d))\<rparr>"
    using r(2) by (simp add: goi_fst ft)
  from c show ?thesis
  proof
    assume e: "fst (RecipeViewSet_create d user data) = fst ?i"
    have "recipes (fst ?i) = recipes d @ [rcp]" "recipe_seq (fst ?i) = recipe_seq d + 1"
      "tags (fst ?i) = fst (reconcile user ?kt (recipe_seq d) (tags d))"
      "ingredients (fst ?i) = fst (reconcile user ?ki (recipe_seq d) (ingredients d))"
      using r(2) by (simp_all add: goi_fst got_fst)
    then show ?thesis unfolding e using r(2,3) by blast
  next
    assume e: "fst (RecipeViewSet_create d user data) = fst ?t"
    have "recipes (fst ?t) = recipes d @ [rcp]" "recipe_seq (fst ?t) = recipe_seq d + 1"
      "tags (fst ?t) = fst (reconcile user ?kt (recipe_seq d) (tags d))"
      "ingredients (fst ?t) = fst (reconcile user [] (recipe_seq d) (ingredients d))"
      using r(2) by (simp_all add: got_fst)
    then show ?thesis unfolding e using r(2,3) by blast
  qed
qed

lemma consistent_create:
  assumes "consistent d"
  shows "consistent (fst (RecipeViewSet_create d user data))"
proof (cases "to_internal_value False RecipeDetailSerializer_fields data")
  case (Inl e)
  then show ?thesis using assms by (simp add: RecipeViewSet_create_def)
next
  case (Inr vd)
  let ?d' = "fst (RecipeViewSet_create d user data)"
  from view_create_form[OF Inr, of d user] obtain rcp kt ki where
    f: "recipes ?d' = recipes d @ [rcp]" "recipe_seq ?d' = recipe_seq d + 1"
    and r: "recipe_id rcp = recipe_seq d" "recipe_user rcp = user"
    and T: "tags ?d' = fst (reconcile user kt (recipe_seq d) (tags d))"
    and I: "ingredients ?d' = fst (reconcile user ki (recipe_seq d) (ingredients d))" by blast
  let ?R = "recipes d @ [rcp]"
  note c = assms[unfolded consistent_def]
  have ids: "\<forall>x \<in> set (recipes d). recipe_id x < recipe_seq d"
    using c by (simp add: list_all_iff)
  have d1: "distinct (map recipe_id (recipes ?d'))" unfolding f using c ids r(1) by auto
  have d2: "list_all (\<lambda>x. recipe_id x < recipe_seq ?d') (recipes ?d')"
    unfolding f using ids r(1) by (auto simp: list_all_iff)
  have ex: "\<exists>x \<in> set ?R. recipe_id x = recipe_seq d \<and> recipe_user x = user" using r by auto
  have m: "(\<lambda>r. (recipe_id r, recipe_user r)) ` set (recipes d)
           \<subseteq> (\<lambda>r. (recipe_id r, recipe_user r)) ` set ?R" by auto
  have lt: "links_owned (recipes ?d') (tags ?d')" unfolding T f
    using links_owned_reconcile[OF _ links_owned_mono[OF _ m] ex] c by blast
  have li: "links_owned (recipes ?d') (ingredients ?d')" unfolding I f
    using links_owned_reconcile[OF _ links_owned_mono[OF _ m] ex] c by blast
  have wt: "wf_store (tags ?d')" unfolding T using wf_reconcile c by blast
  have wi: "wf_store (ingredients ?d')" unfolding I using wf_reconcile c by blast
  show ?thesis
    by (rule consistentI[OF d1 d2 wt wi lt li])
qed

lemma update_recipe_seq [simp]:
  "recipe_seq (fst (RecipeSerializer_update u inst vd d)) = recipe_seq d"
proof -
  let ?rid = "recipe_id inst"
  let ?i = "(case v_ingredients vd of None \<Rightarrow> (d, None)
            | Some ings \<Rightarrow> get_or_create_ingredients u ings inst
                  (d\<lparr>ingredients := m2m_clear ?rid (ingredients d)\<rparr>))"
  let ?t = "(case v_tags vd of None \<Rightarrow> (fst ?i, None)
            | Some tgs \<Rightarrow> get_or_create_tags u tgs inst
                  ((fst ?i)\<lparr>tags := m2m_clear ?rid (tags (fst ?i))\<rparr>))"
  have c: "fst (RecipeSerializer_update u inst vd d) =
       (if snd ?i \<noteq> None then fst ?i
        else if snd ?t \<noteq> None then fst ?t
        else save (setattrs inst (v_fields vd)) (fst ?t))"
    by (auto simp: RecipeSerializer_update_def Let_def split: prod.splits option.splits)
  have i: "recipe_seq (fst ?i) = recipe_seq d" by (cases "v_ingredients vd") (simp_all add: goi_fst)
  have t: "recipe_seq (fst ?t) = recipe_seq d" using i by (cases "v_tags vd") (simp_all add: got_fst)
  show ?thesis unfolding c using i t by (simp add: save_def)
qed

lemma serializer_update_consistent:
  assumes "consistent d"
    and Inr: "get_object recipe_id (RecipeViewSet_get_queryset d user tgs ings) pk = Inr inst"
    and v: "to_internal_value partial RecipeDetailSerializer_fields data = Inr vd"
  shows "consistent (fst (RecipeSerializer_update user inst vd d))"
proof -
  let ?vd = vd
  let ?d' = "fst (RecipeSerializer_update user inst ?vd d)"
  note c = assms(1)[unfolded consistent_def]
  from get_object_Inr[OF Inr] obtain xs where
    xs: "RecipeViewSet_get_queryset d user tgs ings = Inr xs" "inst \<in> set xs" "recipe_id inst = pk"
    by blast
  then have inst: "inst \<in> set (recipes d)" "recipe_user inst = user"
    using get_queryset_subset[OF xs(1)] by auto
  have nu: "''user'' \<notin> fst ` set (v_fields ?vd)"
    using to_internal_value_keys[OF v] detail_fields_no_user by blast
  have k: "map (\<lambda>r. (recipe_id r, recipe_user r)) (recipes (save (setattrs inst (v_fields ?vd)) d))
         = map (\<lambda>r. (recipe_id r, recipe_user r)) (recipes d)"
    by (rule save_keeps_owner[OF inst(1)]) (simp_all add: setattrs_user[OF nu] c)
  have R: "map (\<lambda>r. (recipe_id r, recipe_user r)) (recipes ?d')
         = map (\<lambda>r. (recipe_id r, recipe_user r)) (recipes d)"
    using update_recipes[of user inst ?vd d] k by auto
  have Rid: "map recipe_id (recipes ?d') = map recipe_id (recipes d)"
    using arg_cong[OF R, of "map fst"] by (simp add: comp_def)
  have Rset: "(\<lambda>r. (recipe_id r, recipe_user r)) ` set (recipes d)
              \<subseteq> (\<lambda>r. (recipe_id r, recipe_user r)) ` set (recipes ?d')"
    using arg_cong[OF R, of set] by simp
  have d1: "distinct (map recipe_id (recipes ?d'))" using Rid c by simp
  have "\<forall>i \<in> set (map recipe_id (recipes d)). i < recipe_seq d"
    using c by (simp add: list_all_iff)
  then have "\<forall>i \<in> set (map recipe_id (recipes ?d')). i < recipe_seq d" using Rid by simp
  then have d2: "list_all (\<lambda>r. recipe_id r < recipe_seq ?d') (recipes ?d')"
    by (simp add: list_all_iff)
  have ex: "\<exists>r \<in> set (recipes d). recipe_id r = recipe_id inst \<and> recipe_user r = user"
    using inst by blast
  have T: "wf_store (tags ?d') \<and> links_owned (recipes d) (tags ?d')"
    using update_stores_any[of user inst ?vd d] c
      links_owned_reconcile[OF wf_m2m_clear links_owned_clear ex, of "tags d"]
      wf_reconcile[OF wf_m2m_clear, of "tags d"]
    by auto
  have I: "wf_store (ingredients ?d') \<and> links_owned (recipes d) (ingredients ?d')"
    using update_stores_any[of user inst ?vd d] c
      links_owned_reconcile[OF wf_m2m_clear links_owned_clear ex, of "ingredients d"]
      wf_reconcile[OF wf_m2m_clear, of "ingredients d"]
    by auto
  show "consistent ?d'"
    using d1 d2 T I links_owned_mono[OF _ Rset] by (intro consistentI) auto
qed

lemma consistent_update:
  assumes "consistent d"
  shows "consistent (fst (RecipeViewSet_update d user tgs ings pk partial data))"
proof (cases "get_object recipe_id (RecipeViewSet_get_queryset d user tgs ings) pk")
  case (Inl e)
  then show ?thesis using assms by (simp add: RecipeViewSet_update_def)
next
  case (Inr inst)
  show ?thesis
  proof (cases "to_internal_value partial RecipeDetailSerializer_fields data")
    case (Inl e)
    then show ?thesis using assms Inr by (simp add: RecipeViewSet_update_def)
  next
    case v: (Inr vd)
    show ?thesis
      using serializer_update_consistent[OF assms Inr v] Inr v
      by (simp add: RecipeViewSet_update_def)
  qed
qed

lemma consistent_destroy:
  assumes "consistent d"
  shows "consistent (fst (RecipeViewSet_destroy d user tgs ings pk))"
proof (cases "get_object recipe_id (RecipeViewSet_get_queryset d user tgs ings) pk")
  case (Inl e)
  then show ?thesis using assms by (simp add: RecipeViewSet_destroy_def)
next
  case (Inr inst)
  note c = assms[unfolded consistent_def]
  have "consistent (delete_recipe inst d)"
    using c links_owned_delete_recipe[of "recipes d" _ "recipe_id inst"]
    by (auto simp: consistent_def delete_recipe_def wf_m2m_clear distinct_map_filter list_all_iff)
  then show ?thesis using Inr by (simp add: RecipeViewSet_destroy_def)
qed

lemma attr_get_object_Inr:
  assumes "get_object attr_id (BaseRecipeAttrViewSet_get_queryset st user param) pk = Inr inst"
  shows "inst \<in> set (attr_rows st) \<and> attr_user inst = user \<and> attr_id inst = pk"
proof -
  from get_object_Inr[OF assms] obtain xs where
    xs: "BaseRecipeAttrViewSet_get_queryset st user param = Inr xs" "inst \<in> set xs" "attr_id inst = pk"
    by blast
  then have "query_int param 0 \<noteq> None"
    using attr_get_queryset_bad[of param st user] by auto
  from attr_get_queryset_good[OF this, of st user] xs show ?thesis by auto
qed

lemma renamed_keeps:
  assumes "wf_store st" and "links_owned rs st"
    and i: "inst \<in> set (attr_rows st)"
    and i': "attr_id inst' = attr_id inst" "attr_user inst' = attr_user inst"
  shows "wf_store (st\<lparr>attr_rows :=
                       map (\<lambda>a. if attr_id a = attr_id inst' then inst' else a) (attr_rows st)\<rparr>)
       \<and> links_owned rs (st\<lparr>attr_rows :=
                       map (\<lambda>a. if attr_id a = attr_id inst' then inst' else a) (attr_rows st)\<rparr>)"
proof -
  let ?rows = "map (\<lambda>a. if attr_id a = attr_id inst' then inst' else a) (attr_rows st)"
  have ids: "map attr_id ?rows = map attr_id (attr_rows st)" by (simp add: i')
  have same: "a = inst" if "a \<in> set (attr_rows st)" "attr_id a = attr_id inst" for a
    using assms(1) i that by (auto simp: wf_store_def distinct_map inj_on_def)
  have w: "wf_store (st\<lparr>attr_rows := ?rows\<rparr>)"
  proof -
    have "\<forall>x \<in> set (map attr_id (attr_rows st)). x < next_id st"
      using assms(1) by (simp add: wf_store_def list_all_iff)
    then have "\<forall>x \<in> set (map attr_id ?rows). x < next_id st" unfolding ids .
    then have "list_all (\<lambda>a. attr_id a < next_id st) ?rows"
      unfolding list_all_iff by (metis (no_types, lifting) image_eqI list.set_map)
    moreover have "distinct (map attr_id ?rows)"
      unfolding ids using assms(1) by (simp add: wf_store_def)
    ultimately show ?thesis using assms(1) by (simp add: wf_store_def)
  qed
  have l: "links_owned rs (st\<lparr>attr_rows := ?rows\<rparr>)"
    unfolding links_owned_def
  proof (intro ballI impI)
    fix l a'
    assume la: "l \<in> set (links (st\<lparr>attr_rows := ?rows\<rparr>))"
      "a' \<in> set (attr_rows (st\<lparr>attr_rows := ?rows\<rparr>))" "attr_id a' = snd l"
    then obtain a where a: "a \<in> set (attr_rows st)"
      "a' = (if attr_id a = attr_id inst' then inst' else a)" by auto
    have e: "attr_id a = attr_id a'" "attr_user a = attr_user a'"
      using a same[of a] i' by auto
    have "l \<in> set (links st)" using la(1) by simp
    moreover have "attr_id a = snd l" using e(1) la(3) by simp
    ultimately obtain r where "r \<in> set rs" "recipe_id r = fst l" "recipe_user r = attr_user a"
      using assms(2) a(1) unfolding links_owned_def by blast
    then show "\<exists>r\<in>set rs. recipe_id r = fst l \<and> recipe_user r = attr_user a'"
      using e(2) by auto
  qed
  show ?thesis using w l by simp
qed

lemma base_update_keeps:
  assumes "wf_store st" and "links_owned rs st"
  shows "wf_store (fst (BaseRecipeAttrViewSet_update st user param pk partial new_name))
       \<and> links_owned rs (fst (BaseRecipeAttrViewSet_update st user param pk partial new_name))"
proof (cases "get_object attr_id (BaseRecipeAttrViewSet_get_queryset st user param) pk")
  case (Inl e)
  then show ?thesis using assms by (simp add: BaseRecipeAttrViewSet_update_def)
next
  case (Inr inst)
  note i = attr_get_object_Inr[OF Inr]
  show ?thesis
  proof (cases "run_validation partial (Dict new_name)")
    case (Inl e)
    then show ?thesis using assms Inr by (simp add: BaseRecipeAttrViewSet_update_def)
  next
    case v: (Inr vd)
    define inst' where "inst' = (case kwargs vd of None \<Rightarrow> inst | Some n \<Rightarrow> inst\<lparr>attr_name := n\<rparr>)"
    have i': "attr_id inst' = attr_id inst" "attr_user inst' = attr_user inst"
      by (cases "kwargs vd"; simp add: inst'_def)+
    have f: "fst (BaseRecipeAttrViewSet_update st user param pk partial new_name) =
        st\<lparr>attr_rows := map (\<lambda>a. if attr_id a = attr_id inst' then inst' else a) (attr_rows st)\<rparr>"
      using Inr v by (simp add: BaseRecipeAttrViewSet_update_def Let_def inst'_def)
    show ?thesis
      unfolding f using renamed_keeps[OF assms _ i'] i by blast
  qed
qed

lemma base_destroy_keeps:
  assumes "wf_store st" and "links_owned rs st"
  shows "wf_store (fst (BaseRecipeAttrViewSet_destroy st user param pk))
       \<and> links_owned rs (fst (BaseRecipeAttrViewSet_destroy st user param pk))"
proof (cases "get_object attr_id (BaseRecipeAttrViewSet_get_queryset st user param) pk")
  case (Inl e)
  then show ?thesis using assms by (simp add: BaseRecipeAttrViewSet_destroy_def)
next
  case (Inr inst)
  have "wf_store (delete_attr inst st)"
    using assms(1) by (auto simp: wf_store_def delete_attr_def distinct_map_filter list_all_iff)
  moreover have "links_owned rs (delete_attr inst st)"
    using assms(2) by (auto simp: links_owned_def delete_attr_def)
  ultimately show ?thesis using Inr by (simp add: BaseRecipeAttrViewSet_destroy_def)
qed

lemma consistent_attr_views:
  assumes "consistent d"
  shows "consistent (fst (TagViewSet_update d user param pk partial new_name))"
    and "consistent (fst (TagViewSet_destroy d user param pk))"
    and "consistent (fst (IngredientViewset_update d user param pk partial new_name))"
    and "consistent (fst (IngredientViewset_destroy d user param pk))"
  using assms
    base_update_keeps[of "tags d" "recipes d" user param pk partial new_name]
    base_destroy_keeps[of "tags d" "recipes d" user param pk]
    base_update_keeps[of "ingredients d" "recipes d" user param pk partial new_name]
    base_destroy_keeps[of "ingredients d" "recipes d" user param pk]
  by (auto simp: consistent_def TagViewSet_update_def TagViewSet_destroy_def
      IngredientViewset_update_def IngredientViewset_destroy_def split: prod.splits)

lemma reachable_consistent: "reachable d \<Longrightarrow> consistent d"
proof (induction rule: reachable.induct)
  case start
  show ?case by (rule consistent_empty)
qed (simp_all add: consistent_create consistent_update consistent_destroy consistent_attr_views)

lemma reachable_links_owned:
  "reachable d \<Longrightarrow> links_owned (recipes d) (tags d) \<and> links_owned (recipes d) (ingredients d)"
  using reachable_consistent[of d] by (simp add: consistent_def)

end
